theory Spec2Isabelle
  imports Main "HOL-Library.Sublist"
begin

section \<open>JavaScript strings\<close>

text \<open>
  A string is a list of code units. The embedding covers the strings whose code units
  are below 256 (Basic Latin and Latin-1): a \<^typ>\<open>char\<close> is one code unit, read by
  \<^term>\<open>of_char\<close>. On that range the functions below are the ECMAScript ones.
\<close>

definition is_line_terminator :: "char \<Rightarrow> bool" where
  \<comment> \<open>LineTerminator: LF and CR (LS and PS lie above 255).\<close>
  "is_line_terminator c = ((of_char c :: nat) \<in> {10, 13})"

definition is_whitespace :: "char \<Rightarrow> bool" where
  \<comment> \<open>WhiteSpace and LineTerminator, the class of \<open>\s\<close> and of \<open>trim\<close>:
      TAB, LF, VT, FF, CR, SP, NBSP.\<close>
  "is_whitespace c = ((of_char c :: nat) \<in> {9, 10, 11, 12, 13, 32, 160})"

definition is_capital :: "char \<Rightarrow> bool" where
  \<comment> \<open>A-Z, and the Latin-1 capitals 0xC0-0xDE without the multiplication sign 0xD7.\<close>
  "is_capital c =
     (let n = (of_char c :: nat)
      in (65 \<le> n \<and> n \<le> 90) \<or> (192 \<le> n \<and> n \<le> 222 \<and> n \<noteq> 215))"

definition is_small :: "char \<Rightarrow> bool" where
  \<comment> \<open>a-z, and the Latin-1 small letters 0xE0-0xFE without the division sign 0xF7.\<close>
  "is_small c =
     (let n = (of_char c :: nat)
      in (97 \<le> n \<and> n \<le> 122) \<or> (224 \<le> n \<and> n \<le> 254 \<and> n \<noteq> 247))"

definition toLowerCase_char :: "char \<Rightarrow> char" where
  \<comment> \<open>The small letter of a capital lies 32 code units above it.\<close>
  "toLowerCase_char c = (if is_capital c then char_of ((of_char c :: nat) + 32) else c)"

definition toLowerCase :: "string \<Rightarrow> string" where
  "toLowerCase s = map toLowerCase_char s"

fun string_includes :: "string \<Rightarrow> string \<Rightarrow> bool" where
  \<comment> \<open>\<open>s.includes(needle)\<close>: the needle occurs at some position of \<open>s\<close>.\<close>
  "string_includes [] needle = (needle = [])"
| "string_includes (c # cs) needle = (prefix needle (c # cs) \<or> string_includes cs needle)"

definition trim :: "string \<Rightarrow> string" where
  "trim s = rev (dropWhile is_whitespace (rev (dropWhile is_whitespace s)))"

fun split_at :: "(char \<Rightarrow> bool) \<Rightarrow> string \<Rightarrow> string list" where
  \<comment> \<open>Splitting at every separator character; the result is never empty.\<close>
  "split_at sep [] = [[]]"
| "split_at sep (c # cs) =
     (if sep c then [] # split_at sep cs
      else (case split_at sep cs of
              [] \<Rightarrow> [[c]]
            | l # ls \<Rightarrow> (c # l) # ls))"

definition split_newline :: "string \<Rightarrow> string list" where
  \<comment> \<open>\<open>text.split("\n")\<close>\<close>
  "split_newline text = split_at (\<lambda>c. c = CHR 0x0A) text"

fun join :: "string \<Rightarrow> string list \<Rightarrow> string" where
  \<comment> \<open>\<open>xs.join(sep)\<close> on an array of strings\<close>
  "join sep [] = []"
| "join sep [x] = x"
| "join sep (x # y # ys) = x @ sep @ join sep (y # ys)"

definition or_empty :: "string option \<Rightarrow> string" where
  \<comment> \<open>\<open>v || ""\<close> for a value that is a string or absent (undefined, null)\<close>
  "or_empty v = (case v of None \<Rightarrow> [] | Some s \<Rightarrow> s)"

section \<open>Regular expressions of the form used by the classifier\<close>

text \<open>
  The classifier builds \<open>new RegExp(`^\\s*${area}\\s*$`, "mi")\<close>. The atoms that occur
  are the two assertions, \<open>\s*\<close> and literal characters. A position in the input is the
  character before it (none at the start) and the rest of the input. With flag \<open>m\<close> the
  assertion \<open>^\<close> holds at the start of the input and after a line terminator, \<open>$\<close> at
  the end of the input and before a line terminator; with flag \<open>i\<close> two characters match
  when their canonical forms (upper case) agree.
\<close>

datatype regex_atom = LineStart | LineEnd | WhitespaceStar | Literal char

definition canonicalize :: "char \<Rightarrow> char" where
  \<comment> \<open>Canonicalize of a non-Unicode ignore-case pattern: the capital of a small letter.
      The micro sign and y with diaeresis have their capitals above 255, equal to the
      canonical form of no other character below 256, and stay as they are.\<close>
  "canonicalize c = (if is_small c then char_of ((of_char c :: nat) - 32) else c)"

fun matches_from :: "regex_atom list \<Rightarrow> char option \<Rightarrow> string \<Rightarrow> bool" where
  \<comment> \<open>The backtracking matcher: can the atoms be matched starting at this position?\<close>
  "matches_from [] prev s = True"
| "matches_from (LineStart # atoms) prev s =
     ((case prev of None \<Rightarrow> True | Some p \<Rightarrow> is_line_terminator p) \<and> matches_from atoms prev s)"
| "matches_from (LineEnd # atoms) prev s =
     ((case s of [] \<Rightarrow> True | c # _ \<Rightarrow> is_line_terminator c) \<and> matches_from atoms prev s)"
| "matches_from (Literal a # atoms) prev [] = False"
| "matches_from (Literal a # atoms) prev (c # cs) =
     (canonicalize a = canonicalize c \<and> matches_from atoms (Some c) cs)"
| "matches_from (WhitespaceStar # atoms) prev [] = matches_from atoms prev []"
| "matches_from (WhitespaceStar # atoms) prev (c # cs) =
     ((is_whitespace c \<and> matches_from (WhitespaceStar # atoms) (Some c) cs)
      \<or> matches_from atoms prev (c # cs))"

fun test_from :: "regex_atom list \<Rightarrow> char option \<Rightarrow> string \<Rightarrow> bool" where
  \<comment> \<open>\<open>regex.test\<close> without the flags \<open>g\<close> and \<open>y\<close>: a match at some start position.\<close>
  "test_from atoms prev [] = matches_from atoms prev []"
| "test_from atoms prev (c # cs) =
     (matches_from atoms prev (c # cs) \<or> test_from atoms (Some c) cs)"

definition areaRegex :: "string \<Rightarrow> regex_atom list" where
  \<comment> \<open>The pattern for an area made of letters and spaces (no metacharacter).\<close>
  "areaRegex area = [LineStart, WhitespaceStar] @ map Literal area @ [WhitespaceStar, LineEnd]"

definition areaRegex_test :: "string \<Rightarrow> string \<Rightarrow> bool" where
  "areaRegex_test area body = test_from (areaRegex area) None body"

section \<open>The field classifier (map-issue-type.js)\<close>

datatype label_entry = Label_string string | Label_object string
  \<comment> \<open>a label given as a string, or as an object with a \<open>name\<close>\<close>

record github_issue =
  issue_title :: "string option"
  issue_body :: "string option"
  issue_labels :: "label_entry list option"

record config =
  mappings :: "string \<rightharpoonup> string"
  defaultIssueType :: string

text \<open>
  \<open>mappings[label]\<close> reads an own property of the parsed JSON object, and otherwise a
  member that every plain object inherits from \<open>Object.prototype\<close> (a function or, for
  \<open>__proto__\<close>, the prototype object: a truthy value that is not a string).
\<close>

datatype property = Undefined_property | String_property string | Inherited_property string

definition Object_prototype_members :: "string list" where
  "Object_prototype_members =
     [''constructor'', ''hasOwnProperty'', ''isPrototypeOf'', ''propertyIsEnumerable'',
      ''toLocaleString'', ''toString'', ''valueOf'', ''__proto__'',
      ''__defineGetter__'', ''__defineSetter__'', ''__lookupGetter__'', ''__lookupSetter__'']"

definition get_property :: "(string \<rightharpoonup> string) \<Rightarrow> string \<Rightarrow> property" where
  "get_property obj key =
     (case obj key of
        Some v \<Rightarrow> String_property v
      | None \<Rightarrow> if key \<in> set Object_prototype_members then Inherited_property key
                else Undefined_property)"

fun truthy_property :: "property \<Rightarrow> bool" where
  "truthy_property Undefined_property = False"
| "truthy_property (String_property s) = (s \<noteq> [])"
| "truthy_property (Inherited_property k) = True"

datatype console =
    Log_value string
      \<comment> \<open>\<open>console.log(defaultIssueType)\<close>\<close>
  | Error_reading_mapping_configuration string
      \<comment> \<open>\<open>console.error("... Error reading mapping configuration:", error.message)\<close>\<close>
  | Falling_back_to_Task
      \<comment> \<open>\<open>console.log('... Falling back to default issue type: "Task"')\<close>\<close>

fun labels_loop :: "(string \<rightharpoonup> string) \<Rightarrow> string list \<Rightarrow> property option" where
  \<comment> \<open>The \<open>for ... of\<close> loop: \<open>Some v\<close> is \<open>return v\<close>, \<open>None\<close> is falling through.\<close>
  "labels_loop m [] = None"
| "labels_loop m (label # rest) =
     (if truthy_property (get_property m label) then Some (get_property m label)
      else labels_loop m rest)"

definition mapGitHubLabelsToJiraIssueType ::
  "string list \<Rightarrow> string + config \<Rightarrow> console list \<times> property" where
  \<comment> \<open>The second argument is what reading and parsing the file at \<open>configPath\<close> gave:
      \<open>Inl message\<close> when \<open>readFileSync\<close> or \<open>JSON.parse\<close> threw an error with that
      message, which the \<open>catch\<close> clause handles; \<open>Inr config\<close> for a parsed file of the
      persisted layout, an object of strings under \<open>mappings\<close> and a string under
      \<open>defaultIssueType\<close>. The first component of the result is the console output.\<close>
  "mapGitHubLabelsToJiraIssueType githubLabels loaded =
     (case loaded of
        Inl message \<Rightarrow>
          ([Error_reading_mapping_configuration message, Falling_back_to_Task],
           String_property ''Task'')
      | Inr config \<Rightarrow>
          (case labels_loop (mappings config) githubLabels of
             Some v \<Rightarrow> ([], v)
           | None \<Rightarrow> ([Log_value (defaultIssueType config)],
                       String_property (defaultIssueType config))))"

definition mapPriority :: "github_issue \<Rightarrow> string" where
  "mapPriority issueData =
     (let body = toLowerCase (or_empty (issue_body issueData));
          title = toLowerCase (or_empty (issue_title issueData))
      in if string_includes body ''high - production system''
            \<or> string_includes body ''production down''
         then ''Highest''
         else if string_includes body ''medium - a non-critical feature'' then ''Medium''
         else if string_includes body ''low - minor issue'' \<or> string_includes body ''cosmetic''
         then ''Low''
         else if string_includes title ''urgent'' \<or> string_includes title ''critical''
                 \<or> string_includes body ''urgent''
         then ''High''
         else ''Medium'')"

definition platformAreas :: "string list" where
  "platformAreas = [''REELS'', ''ALPHA'', ''TRINITY'', ''AI HUB'']"

definition label_name :: "label_entry \<Rightarrow> string" where
  \<comment> \<open>\<open>typeof label === "string" ? label : label.name\<close>\<close>
  "label_name label = (case label of Label_string s \<Rightarrow> s | Label_object n \<Rightarrow> n)"

fun push_areas :: "string \<Rightarrow> string list \<Rightarrow> string list \<Rightarrow> string list" where
  \<comment> \<open>\<open>platformAreas.forEach\<close>: the areas still to visit, and \<open>components\<close> so far.\<close>
  "push_areas body [] components = components"
| "push_areas body (area # areas) components =
     push_areas body areas
       (if areaRegex_test area body then components @ [area] else components)"

record classification =
  issueType :: property
  priority :: string
  components :: "string list"
  labels :: "string list"
  originalLabels :: "label_entry list option"

definition mapGitHubIssueToJiraFields ::
  "github_issue \<Rightarrow> string + config \<Rightarrow> console list \<times> classification" where
  "mapGitHubIssueToJiraFields githubIssue loaded =
     (let labels = (case issue_labels githubIssue of
                      Some ls \<Rightarrow> map label_name ls
                    | None \<Rightarrow> []);
          (out, issueType) = mapGitHubLabelsToJiraIssueType labels loaded;
          priority = mapPriority githubIssue;
          body = or_empty (issue_body githubIssue);
          components = push_areas body platformAreas []
      in (out, \<lparr>issueType = issueType, priority = priority, components = components,
                labels = labels, originalLabels = issue_labels githubIssue\<rparr>))"

section \<open>JavaScript values\<close>

text \<open>
  The values that the document builder probes at run time. \<open>JNum n\<close> is the number with
  the integer value \<open>n\<close> (a safe integer); an object is the list of its own properties in
  enumeration order, with pairwise distinct names. Functions and cyclic objects are
  outside this type.
\<close>

datatype jsvalue =
    JUndefined
  | JNull
  | JBool bool
  | JNum int
  | JBigInt int
  | JStr string
  | JArr "jsvalue list"
  | JObj "(string \<times> jsvalue) list"

datatype error = TypeError

fun typeof :: "jsvalue \<Rightarrow> string" where
  "typeof JUndefined = ''undefined''"
| "typeof JNull = ''object''"
| "typeof (JBool b) = ''boolean''"
| "typeof (JNum n) = ''number''"
| "typeof (JBigInt n) = ''bigint''"
| "typeof (JStr s) = ''string''"
| "typeof (JArr xs) = ''object''"
| "typeof (JObj kvs) = ''object''"

fun truthy :: "jsvalue \<Rightarrow> bool" where
  "truthy JUndefined = False"
| "truthy JNull = False"
| "truthy (JBool b) = b"
| "truthy (JNum n) = (n \<noteq> 0)"
| "truthy (JBigInt n) = (n \<noteq> 0)"
| "truthy (JStr s) = (s \<noteq> [])"
| "truthy (JArr xs) = True"
| "truthy (JObj kvs) = True"

fun isArray :: "jsvalue \<Rightarrow> bool" where
  "isArray (JArr xs) = True"
| "isArray v = False"

fun get_field :: "jsvalue \<Rightarrow> string \<Rightarrow> jsvalue" where
  \<comment> \<open>\<open>v.key\<close> for a value other than null and undefined, and for the property names this
      program reads (type, version, content, text, marks), none of which a prototype
      defines: the own property of an object, undefined otherwise.\<close>
  "get_field (JObj kvs) key = (case map_of kvs key of Some v \<Rightarrow> v | None \<Rightarrow> JUndefined)"
| "get_field v key = JUndefined"

fun map_result :: "('a \<Rightarrow> error + 'b) \<Rightarrow> 'a list \<Rightarrow> error + 'b list" where
  \<comment> \<open>\<open>xs.map(f)\<close> for a callback that may throw: the first exception ends the call.\<close>
  "map_result f [] = Inr []"
| "map_result f (x # xs) =
     (case f x of
        Inl e \<Rightarrow> Inl e
      | Inr y \<Rightarrow> (case map_result f xs of Inl e \<Rightarrow> Inl e | Inr ys \<Rightarrow> Inr (y # ys)))"

subsection \<open>JSON.stringify\<close>

definition hex_digit :: "nat \<Rightarrow> char" where
  "hex_digit n = ''0123456789abcdef'' ! (n mod 16)"

definition quote_char :: "char \<Rightarrow> string" where
  \<comment> \<open>QuoteJSONString, one code unit: the two-character escapes, \<open>\u00XX\<close> for the other
      control characters, the code unit itself otherwise.\<close>
  "quote_char c =
     (let n = (of_char c :: nat)
      in if n = 8 then [CHR 0x5C, CHR ''b'']
         else if n = 9 then [CHR 0x5C, CHR ''t'']
         else if n = 10 then [CHR 0x5C, CHR ''n'']
         else if n = 12 then [CHR 0x5C, CHR ''f'']
         else if n = 13 then [CHR 0x5C, CHR ''r'']
         else if n = 34 then [CHR 0x5C, CHR 0x22]
         else if n = 92 then [CHR 0x5C, CHR 0x5C]
         else if n < 32 then [CHR 0x5C, CHR ''u'', CHR ''0'', CHR ''0'',
                              hex_digit (n div 16), hex_digit n]
         else [c])"

definition QuoteJSONString :: "string \<Rightarrow> string" where
  "QuoteJSONString s = [CHR 0x22] @ concat (map quote_char s) @ [CHR 0x22]"

fun decimal :: "nat \<Rightarrow> string" where
  "decimal n = (if n < 10 then [hex_digit n] else decimal (n div 10) @ [hex_digit (n mod 10)])"

definition Number_toString :: "int \<Rightarrow> string" where
  "Number_toString n = (if n < 0 then ''-'' @ decimal (nat (- n)) else decimal (nat n))"

fun SerializeJSONProperty :: "jsvalue \<Rightarrow> error + string option"
  and SerializeJSONArray :: "jsvalue list \<Rightarrow> error + string list"
  and SerializeJSONObject :: "(string \<times> jsvalue) list \<Rightarrow> error + string list" where
  \<comment> \<open>\<open>None\<close> is undefined: such an element of an array is written \<open>null\<close>, such a
      property of an object is left out. A BigInt throws a TypeError.\<close>
  "SerializeJSONProperty JUndefined = Inr None"
| "SerializeJSONProperty JNull = Inr (Some ''null'')"
| "SerializeJSONProperty (JBool b) = Inr (Some (if b then ''true'' else ''false''))"
| "SerializeJSONProperty (JNum n) = Inr (Some (Number_toString n))"
| "SerializeJSONProperty (JBigInt n) = Inl TypeError"
| "SerializeJSONProperty (JStr s) = Inr (Some (QuoteJSONString s))"
| "SerializeJSONProperty (JArr xs) =
     (case SerializeJSONArray xs of
        Inl e \<Rightarrow> Inl e
      | Inr parts \<Rightarrow> Inr (Some (''['' @ join '','' parts @ '']'')))"
| "SerializeJSONProperty (JObj kvs) =
     (case SerializeJSONObject kvs of
        Inl e \<Rightarrow> Inl e
      | Inr parts \<Rightarrow> Inr (Some (''{'' @ join '','' parts @ ''}'')))"
| "SerializeJSONArray [] = Inr []"
| "SerializeJSONArray (x # xs) =
     (case SerializeJSONProperty x of
        Inl e \<Rightarrow> Inl e
      | Inr r \<Rightarrow>
          (case SerializeJSONArray xs of
             Inl e \<Rightarrow> Inl e
           | Inr rs \<Rightarrow> Inr ((case r of None \<Rightarrow> ''null'' | Some s \<Rightarrow> s) # rs)))"
| "SerializeJSONObject [] = Inr []"
| "SerializeJSONObject ((k, v) # kvs) =
     (case SerializeJSONProperty v of
        Inl e \<Rightarrow> Inl e
      | Inr r \<Rightarrow>
          (case SerializeJSONObject kvs of
             Inl e \<Rightarrow> Inl e
           | Inr rs \<Rightarrow>
               Inr ((case r of None \<Rightarrow> [] | Some s \<Rightarrow> [QuoteJSONString k @ '':'' @ s]) @ rs)))"

definition JSON_stringify :: "jsvalue \<Rightarrow> error + jsvalue" where
  "JSON_stringify v =
     (case SerializeJSONProperty v of
        Inl e \<Rightarrow> Inl e
      | Inr None \<Rightarrow> Inr JUndefined
      | Inr (Some s) \<Rightarrow> Inr (JStr s))"

section \<open>The document builder (adf-utils.js)\<close>

definition textToADF :: "jsvalue \<Rightarrow> jsvalue" where
  \<comment> \<open>\<open>typeof text\<close> is \<open>"string"\<close> for a \<open>JStr\<close> and for nothing else.\<close>
  "textToADF text =
     (case text of
        JStr s \<Rightarrow>
          if \<not> truthy text then
            JObj [(''type'', JStr ''doc''), (''version'', JNum 1), (''content'', JArr [])]
          else
            let paragraphs = filter (\<lambda>line. trim line \<noteq> []) (split_newline s);
                content = map (\<lambda>paragraph.
                    JObj [(''type'', JStr ''paragraph''),
                          (''content'', JArr [JObj [(''type'', JStr ''text''),
                                                    (''text'', JStr (trim paragraph))]])])
                  paragraphs
            in JObj [(''type'', JStr ''doc''), (''version'', JNum 1),
                     (''content'',
                      if length content > 0 then JArr content
                      else JArr [JObj [(''type'', JStr ''paragraph''),
                                       (''content'', JArr [JObj [(''type'', JStr ''text''),
                                                                 (''text'', text)]])]])]
      | _ \<Rightarrow> JObj [(''type'', JStr ''doc''), (''version'', JNum 1), (''content'', JArr [])])"

definition formatted_node :: "jsvalue \<Rightarrow> error + jsvalue" where
  \<comment> \<open>The callback of \<open>textNodes.map\<close>; reading \<open>node.text\<close> of null or undefined throws.\<close>
  "formatted_node node =
     (if node = JUndefined \<or> node = JNull then Inl TypeError
      else Inr (JObj ([(''type'', JStr ''text''), (''text'', get_field node ''text'')]
                      @ (if truthy (get_field node ''marks'')
                         then [(''marks'', get_field node ''marks'')] else []))))"

definition createFormattedADF :: "jsvalue \<Rightarrow> error + jsvalue" where
  \<comment> \<open>\<open>textNodes.map\<close> is a function only when \<open>textNodes\<close> is an array.\<close>
  "createFormattedADF textNodes =
     (case textNodes of
        JArr nodes \<Rightarrow>
          (case map_result formatted_node nodes of
             Inl e \<Rightarrow> Inl e
           | Inr texts \<Rightarrow>
               Inr (JObj [(''type'', JStr ''doc''), (''version'', JNum 1),
                          (''content'', JArr [JObj [(''type'', JStr ''paragraph''),
                                                    (''content'', JArr texts)]])]))
      | _ \<Rightarrow> Inl TypeError)"

definition listItem :: "jsvalue \<Rightarrow> jsvalue" where
  \<comment> \<open>The callback of \<open>items.map\<close> in both list builders.\<close>
  "listItem item =
     JObj [(''type'', JStr ''listItem''),
           (''content'', JArr [JObj [(''type'', JStr ''paragraph''),
                                     (''content'', JArr [JObj [(''type'', JStr ''text''),
                                                               (''text'', item)]])]])]"

definition createBulletListADF :: "jsvalue \<Rightarrow> jsvalue" where
  "createBulletListADF items =
     (case items of
        JArr xs \<Rightarrow>
          if length xs = 0 then textToADF (JStr [])
          else JObj [(''type'', JStr ''doc''), (''version'', JNum 1),
                     (''content'', JArr [JObj [(''type'', JStr ''bulletList''),
                                               (''content'', JArr (map listItem xs))]])]
      | _ \<Rightarrow> textToADF (JStr []))"

definition createOrderedListADF :: "jsvalue \<Rightarrow> jsvalue" where
  "createOrderedListADF items =
     (case items of
        JArr xs \<Rightarrow>
          if length xs = 0 then textToADF (JStr [])
          else JObj [(''type'', JStr ''doc''), (''version'', JNum 1),
                     (''content'', JArr [JObj [(''type'', JStr ''orderedList''),
                                               (''content'', JArr (map listItem xs))]])]
      | _ \<Rightarrow> textToADF (JStr []))"

definition createHeadingWithContentADF :: "jsvalue \<Rightarrow> int option \<Rightarrow> jsvalue \<Rightarrow> jsvalue" where
  \<comment> \<open>\<open>level\<close> is an integer-valued number, \<open>None\<close> when the argument is left out; the
      defaults replace an undefined argument.\<close>
  "createHeadingWithContentADF headingText level_arg content_arg =
     (let level = (case level_arg of None \<Rightarrow> 1 | Some l \<Rightarrow> l);
          content = (if content_arg = JUndefined then JStr [] else content_arg);
          validLevel = max 1 (min 6 level);
          adfContent = [JObj [(''type'', JStr ''heading''),
                              (''attrs'', JObj [(''level'', JNum validLevel)]),
                              (''content'', JArr [JObj [(''type'', JStr ''text''),
                                                        (''text'', headingText)]])]];
          adfContent = (if truthy content
                        then adfContent @
                             [JObj [(''type'', JStr ''paragraph''),
                                    (''content'', JArr [JObj [(''type'', JStr ''text''),
                                                              (''text'', content)]])]]
                        else adfContent)
      in JObj [(''type'', JStr ''doc''), (''version'', JNum 1), (''content'', JArr adfContent)])"

definition createCodeBlockADF :: "jsvalue \<Rightarrow> jsvalue \<Rightarrow> jsvalue" where
  "createCodeBlockADF code language_arg =
     (let language = (if language_arg = JUndefined then JStr [] else language_arg)
      in JObj [(''type'', JStr ''doc''), (''version'', JNum 1),
               (''content'',
                JArr [JObj [(''type'', JStr ''codeBlock''),
                            (''attrs'', if truthy language then JObj [(''language'', language)]
                                        else JObj []),
                            (''content'', JArr [JObj [(''type'', JStr ''text''),
                                                      (''text'', code)]])]])])"

definition createLinkADF :: "jsvalue \<Rightarrow> jsvalue \<Rightarrow> jsvalue" where
  "createLinkADF text url =
     JObj [(''type'', JStr ''doc''), (''version'', JNum 1),
           (''content'',
            JArr [JObj [(''type'', JStr ''paragraph''),
                        (''content'',
                         JArr [JObj [(''type'', JStr ''text''), (''text'', text),
                                     (''marks'',
                                      JArr [JObj [(''type'', JStr ''link''),
                                                  (''attrs'', JObj [(''href'', url)])]])]])]])]"

definition combineADFContent :: "jsvalue \<Rightarrow> error + jsvalue" where
  \<comment> \<open>\<open>contentBlocks.filter\<close> is a function only when \<open>contentBlocks\<close> is an array;
      \<open>block != null\<close> drops null and undefined.\<close>
  "combineADFContent contentBlocks =
     (case contentBlocks of
        JArr blocks \<Rightarrow>
          Inr (JObj [(''type'', JStr ''doc''), (''version'', JNum 1),
                     (''content'',
                      JArr (filter (\<lambda>block. block \<noteq> JNull \<and> block \<noteq> JUndefined) blocks))])
      | _ \<Rightarrow> Inl TypeError)"

definition isValidADF :: "jsvalue \<Rightarrow> bool" where
  \<comment> \<open>Whether the value of the \<open>&&\<close> chain is truthy.\<close>
  "isValidADF adf =
     (truthy adf \<and> typeof adf = ''object'' \<and> get_field adf ''type'' = JStr ''doc''
      \<and> get_field adf ''version'' = JNum 1 \<and> isArray (get_field adf ''content''))"

section \<open>The issue assembler (create.js)\<close>

definition createIssue_adfDescription :: "jsvalue \<Rightarrow> error + jsvalue" where
  \<comment> \<open>The first statement of the \<open>try\<close> block of \<open>createIssue\<close>, which computes
      \<open>adfDescription\<close>. An exception leaves the block for the \<open>catch\<close> clause, which
      logs it and throws it again: \<open>Inl\<close>.\<close>
  "createIssue_adfDescription description =
     (if typeof description = ''string'' then Inr (textToADF description)
      else if truthy description \<and> typeof description = ''object'' \<and> isValidADF description
      then Inr description
      else if truthy description \<and> typeof description = ''object''
      then (case JSON_stringify description of
              Inl e \<Rightarrow> Inl e
            | Inr text \<Rightarrow> Inr (textToADF text))
      else Inr (textToADF (JStr [])))"

record mapping_info =
  info_labels :: "string list option"
  info_issueType :: "string option"
  info_priority :: "string option"

definition paragraph_em :: "string \<Rightarrow> jsvalue" where
  \<comment> \<open>The object literal pushed for each piece of mapping information.\<close>
  "paragraph_em t =
     JObj [(''type'', JStr ''paragraph''),
           (''content'', JArr [JObj [(''type'', JStr ''text''), (''text'', JStr t),
                                     (''marks'', JArr [JObj [(''type'', JStr ''em'')]])]])]"

definition has_text :: "string option \<Rightarrow> bool" where
  \<comment> \<open>\<open>body && body.trim()\<close> as a condition\<close>
  "has_text body = (case body of None \<Rightarrow> False | Some b \<Rightarrow> b \<noteq> [] \<and> trim b \<noteq> [])"

fun push_paragraphs :: "string list \<Rightarrow> jsvalue list \<Rightarrow> jsvalue list" where
  \<comment> \<open>\<open>paragraphs.forEach\<close>: one \<open>content.push\<close> for each line.\<close>
  "push_paragraphs [] content = content"
| "push_paragraphs (paragraph # paragraphs) content =
     push_paragraphs paragraphs
       (content @ [JObj [(''type'', JStr ''paragraph''),
                         (''content'', JArr [JObj [(''type'', JStr ''text''),
                                                   (''text'', JStr (trim paragraph))]])]])"

definition createGitHubIssueADF ::
  "string \<Rightarrow> string \<Rightarrow> string \<Rightarrow> string option \<Rightarrow> mapping_info \<Rightarrow> jsvalue" where
  \<comment> \<open>\<open>content\<close> is mutated by \<open>push\<close>; each \<open>let\<close> below is the array after one statement.\<close>
  "createGitHubIssueADF githubUrl author createdAt body mappingInfo =
     (let content =
            [JObj [(''type'', JStr ''paragraph''),
                   (''content'',
                    JArr [JObj [(''type'', JStr ''text''),
                                (''text'', JStr ''Original GitHub Issue: '')],
                          JObj [(''type'', JStr ''text''), (''text'', JStr githubUrl),
                                (''marks'',
                                 JArr [JObj [(''type'', JStr ''link''),
                                             (''attrs'', JObj [(''href'', JStr githubUrl)])]])]])],
             JObj [(''type'', JStr ''paragraph''),
                   (''content'', JArr [JObj [(''type'', JStr ''text''),
                                             (''text'', JStr (''Created by: '' @ author))]])],
             JObj [(''type'', JStr ''paragraph''),
                   (''content'', JArr [JObj [(''type'', JStr ''text''),
                                             (''text'', JStr (''Created at: '' @ createdAt))]])],
             JObj [(''type'', JStr ''rule'')]];
          content =
            (case info_labels mappingInfo of
               Some ls \<Rightarrow>
                 if length ls > 0
                 then content @ [paragraph_em (''GitHub Labels: '' @ join '', '' ls)]
                 else content
             | None \<Rightarrow> content);
          content =
            (case info_issueType mappingInfo of
               Some t \<Rightarrow>
                 if t \<noteq> [] then content @ [paragraph_em (''Mapped to Issue Type: '' @ t)]
                 else content
             | None \<Rightarrow> content);
          content =
            (case info_priority mappingInfo of
               Some p \<Rightarrow>
                 if p \<noteq> [] then content @ [paragraph_em (''Priority: '' @ p)] else content
             | None \<Rightarrow> content);
          content = (if has_text body then content @ [JObj [(''type'', JStr ''rule'')]]
                     else content);
          content =
            (if has_text body
             then push_paragraphs
                    (filter (\<lambda>line. trim line \<noteq> []) (split_newline (or_empty body))) content
             else content)
      in JObj [(''type'', JStr ''doc''), (''version'', JNum 1), (''content'', JArr content)])"

section \<open>The specification's wording, for comparison with the code\<close>

text \<open>The priority cascade as the specification words it.\<close>

definition mapPriority_spec :: "github_issue \<Rightarrow> string" where
  "mapPriority_spec issueData =
     (let body = toLowerCase (or_empty (issue_body issueData));
          title = toLowerCase (or_empty (issue_title issueData))
      in if string_includes body ''high - production system''
            \<or> string_includes body ''production down''
         then ''Highest''
         else if string_includes body ''medium - a non-critical feature'' then ''Medium''
         else if string_includes body ''low - minor issue'' \<or> string_includes body ''cosmetic''
         then ''Low''
         else if string_includes title ''urgent'' \<or> string_includes title ''critical''
                 \<or> string_includes body ''urgent'' \<or> string_includes body ''critical''
         then ''High''
         else ''Medium'')"

text \<open>
  The issue type as the specification words it: the value of the first label that is a key
  of the mappings, the default when there is none.
\<close>

fun first_key :: "(string \<rightharpoonup> string) \<Rightarrow> string list \<Rightarrow> string option" where
  "first_key m [] = None"
| "first_key m (label # rest) = (case m label of Some v \<Rightarrow> Some v | None \<Rightarrow> first_key m rest)"

definition mapIssueType_spec :: "string list \<Rightarrow> config \<Rightarrow> string" where
  "mapIssueType_spec githubLabels config =
     (case first_key (mappings config) githubLabels of
        Some v \<Rightarrow> v
      | None \<Rightarrow> defaultIssueType config)"

definition maps_to_nonempty :: "(string \<rightharpoonup> string) \<Rightarrow> string \<Rightarrow> bool" where
  "maps_to_nonempty m label = (case m label of Some v \<Rightarrow> v \<noteq> [] | None \<Rightarrow> False)"

text \<open>
  Lines, for the component tags: a body is cut at every line terminator, and a line
  consists solely of a tag when trimming it leaves the tag, letter case apart.
\<close>

definition lines_of :: "string \<Rightarrow> string list" where
  "lines_of body = split_at is_line_terminator body"

definition solely :: "string \<Rightarrow> string \<Rightarrow> bool" where
  "solely tag line = (toLowerCase (trim line) = toLowerCase tag)"

definition has_line_solely :: "string \<Rightarrow> string \<Rightarrow> bool" where
  "has_line_solely tag body = list_ex (solely tag) (lines_of body)"

text \<open>Positions and tails of a line, to state what the area pattern accepts.\<close>

definition at_line_start :: "char option \<Rightarrow> bool" where
  "at_line_start prev = (case prev of None \<Rightarrow> True | Some p \<Rightarrow> is_line_terminator p)"

definition at_line_end :: "string \<Rightarrow> bool" where
  "at_line_end s = (case s of [] \<Rightarrow> True | c # _ \<Rightarrow> is_line_terminator c)"

definition line_tail :: "string \<Rightarrow> bool" where
  "line_tail s \<longleftrightarrow> (\<exists>w r. s = w @ r \<and> (\<forall>c \<in> set w. is_whitespace c) \<and> at_line_end r)"

definition tag_then_tail :: "string \<Rightarrow> string \<Rightarrow> bool" where
  "tag_then_tail a s \<longleftrightarrow>
     (\<exists>m r. s = m @ r \<and> map canonicalize m = map canonicalize a \<and> line_tail r)"

definition standalone_tag :: "string \<Rightarrow> bool" where
  "standalone_tag tag \<longleftrightarrow>
     tag \<noteq> [] \<and> \<not> is_whitespace (hd tag) \<and> \<not> is_whitespace (last tag)
     \<and> (\<forall>c \<in> set tag. \<not> is_line_terminator c)"

text \<open>The nodes of a document, to state what the builders return.\<close>

definition adf_doc :: "jsvalue list \<Rightarrow> jsvalue" where
  "adf_doc content =
     JObj [(''type'', JStr ''doc''), (''version'', JNum 1), (''content'', JArr content)]"

definition paragraph_node :: "jsvalue list \<Rightarrow> jsvalue" where
  "paragraph_node nodes = JObj [(''type'', JStr ''paragraph''), (''content'', JArr nodes)]"

definition text_node :: "string \<Rightarrow> jsvalue" where
  "text_node t = JObj [(''type'', JStr ''text''), (''text'', JStr t)]"

definition link_node :: "string \<Rightarrow> string \<Rightarrow> jsvalue" where
  "link_node t href =
     JObj [(''type'', JStr ''text''), (''text'', JStr t),
           (''marks'', JArr [JObj [(''type'', JStr ''link''),
                                   (''attrs'', JObj [(''href'', JStr href)])]])]"

definition em_node :: "string \<Rightarrow> jsvalue" where
  "em_node t =
     JObj [(''type'', JStr ''text''), (''text'', JStr t),
           (''marks'', JArr [JObj [(''type'', JStr ''em'')]])]"

definition rule_node :: jsvalue where
  "rule_node = JObj [(''type'', JStr ''rule'')]"

definition retained_lines :: "string \<Rightarrow> string list" where
  "retained_lines s = filter (\<lambda>line. trim line \<noteq> []) (split_newline s)"

definition trimmed :: "string \<Rightarrow> bool" where
  \<comment> \<open>no white space at either end\<close>
  "trimmed t = (t = [] \<or> (\<not> is_whitespace (hd t) \<and> \<not> is_whitespace (last t)))"

text \<open>The blocks of a document, and the texts of the nodes of a block.\<close>

definition doc_blocks :: "jsvalue \<Rightarrow> jsvalue list" where
  "doc_blocks d = (case get_field d ''content'' of JArr blocks \<Rightarrow> blocks | _ \<Rightarrow> [])"

definition block_texts :: "jsvalue \<Rightarrow> jsvalue list" where
  "block_texts block =
     (case get_field block ''content'' of
        JArr nodes \<Rightarrow> map (\<lambda>node. get_field node ''text'') nodes
      | _ \<Rightarrow> [])"

fun contains_bigint :: "jsvalue \<Rightarrow> bool"
  and contains_bigint_list :: "jsvalue list \<Rightarrow> bool"
  and contains_bigint_props :: "(string \<times> jsvalue) list \<Rightarrow> bool" where
  "contains_bigint (JBigInt n) = True"
| "contains_bigint (JArr xs) = contains_bigint_list xs"
| "contains_bigint (JObj kvs) = contains_bigint_props kvs"
| "contains_bigint JUndefined = False"
| "contains_bigint JNull = False"
| "contains_bigint (JBool b) = False"
| "contains_bigint (JNum n) = False"
| "contains_bigint (JStr s) = False"
| "contains_bigint_list [] = False"
| "contains_bigint_list (x # xs) = (contains_bigint x \<or> contains_bigint_list xs)"
| "contains_bigint_props [] = False"
| "contains_bigint_props ((k, v) # kvs) = (contains_bigint v \<or> contains_bigint_props kvs)"

section \<open>Priority\<close>

lemma mapPriority_agrees_without_critical_body:
  "\<not> string_includes (toLowerCase (or_empty (issue_body issueData))) ''critical''
   \<Longrightarrow> mapPriority issueData = mapPriority_spec issueData"
  by (simp add: mapPriority_def mapPriority_spec_def Let_def)

text \<open>
  C1. The claim's fourth rule gives \<open>High\<close> when the title or the body contains
  "urgent" or "critical". The code tests the title for both words and the body
  for "urgent" only: on the feature request of the repository's own mapping summary,
  whose body answers "High - Critical for business operations", the code returns
  \<open>Medium\<close> where the cascade of the claim returns \<open>High\<close>.
\<close>

theorem mapPriority_misses_critical_in_body:
  "mapPriority \<lparr>issue_title = Some ''Add real-time chat system'',
                 issue_body = Some ''High - Critical for business operations'',
                 issue_labels = Some [Label_string ''Feature Request'']\<rparr> = ''Medium''
   \<and> mapPriority_spec \<lparr>issue_title = Some ''Add real-time chat system'',
                 issue_body = Some ''High - Critical for business operations'',
                 issue_labels = Some [Label_string ''Feature Request'']\<rparr> = ''High''"
  by code_simp

lemma string_includes_sublist: "string_includes s needle \<longleftrightarrow> sublist needle s"
  by (induction s) (simp_all add: sublist_Cons_right)

section \<open>Issue type\<close>

lemma labels_loop_find:
  "labels_loop m ls =
     map_option (get_property m) (find (\<lambda>l. truthy_property (get_property m l)) ls)"
  by (induction ls) simp_all

lemma labels_loop_unmatched:
  "(\<forall>l \<in> set ls. \<not> truthy_property (get_property m l)) \<Longrightarrow> labels_loop m ls = None"
  by (induction ls) simp_all

lemma get_property_own:
  "(label \<in> set Object_prototype_members \<longrightarrow> m label \<noteq> None) \<Longrightarrow>
   truthy_property (get_property m label) = maps_to_nonempty m label"
  by (auto simp: get_property_def maps_to_nonempty_def split: option.splits)

lemma labels_loop_own:
  "(\<forall>l \<in> set ls. l \<in> set Object_prototype_members \<longrightarrow> m l \<noteq> None) \<Longrightarrow>
   labels_loop m ls =
     (case find (maps_to_nonempty m) ls of
        Some l \<Rightarrow> Some (String_property (the (m l)))
      | None \<Rightarrow> None)"
proof (induction ls)
  case Nil
  then show ?case by simp
next
  case (Cons l ls)
  then have own: "truthy_property (get_property m l) = maps_to_nonempty m l"
    by (simp add: get_property_own)
  show ?case
  proof (cases "maps_to_nonempty m l")
    case True
    then obtain v where "m l = Some v"
      by (auto simp: maps_to_nonempty_def split: option.splits)
    with True own show ?thesis by (simp add: get_property_def)
  next
    case False
    with own Cons show ?thesis by simp
  qed
qed

text \<open>
  C2, as stated, fails: the loop tests \<open>mappings[label]\<close> for truthiness, not the label
  for being a key. A label that is a key with the empty string as its value is passed
  over: here the claim gives the mapped value \<open>""\<close> and the code the default.
\<close>

theorem empty_mapping_value_counterexample:
  "snd (mapGitHubLabelsToJiraIssueType [''Bug Report'']
          (Inr \<lparr>mappings = [''Bug Report'' \<mapsto> []],
                defaultIssueType = ''Technical Support''\<rparr>))
     \<noteq> String_property
          (mapIssueType_spec [''Bug Report'']
             \<lparr>mappings = [''Bug Report'' \<mapsto> []],
              defaultIssueType = ''Technical Support''\<rparr>)"
  by (simp add: mapGitHubLabelsToJiraIssueType_def mapIssueType_spec_def get_property_def)

text \<open>
  C2, amended. For every loaded configuration and every label list in which no label
  names a member inherited from \<open>Object.prototype\<close> that the mappings do not define
  themselves, the function returns \<open>mappings[L]\<close> for the first label \<open>L\<close> in input order
  whose value in the mappings is a non-empty string, and the default issue type of the
  configuration when there is no such label or no label at all. Later labels with
  mappings of their own raise no conflict: the result is a value in every case.
\<close>

theorem first_nonempty_mapping_wins:
  assumes "\<forall>l \<in> set githubLabels.
             l \<in> set Object_prototype_members \<longrightarrow> mappings config l \<noteq> None"
  shows "snd (mapGitHubLabelsToJiraIssueType githubLabels (Inr config)) =
     (case find (maps_to_nonempty (mappings config)) githubLabels of
        Some L \<Rightarrow> String_property (the (mappings config L))
      | None \<Rightarrow> String_property (defaultIssueType config))"
  using labels_loop_own [OF assms]
  by (simp add: mapGitHubLabelsToJiraIssueType_def split: option.splits)

theorem first_nonempty_mapping_wins_witness:
  "snd (mapGitHubLabelsToJiraIssueType [''Unknown Label'', ''Bug Report'', ''Improvement'']
          (Inr \<lparr>mappings = [''Bug Report'' \<mapsto> ''Bug'', ''Improvement'' \<mapsto> ''Story''],
                defaultIssueType = ''Technical Support''\<rparr>))
     = String_property ''Bug''"
  using first_nonempty_mapping_wins
     [of "[''Unknown Label'', ''Bug Report'', ''Improvement'']"
         "\<lparr>mappings = [''Bug Report'' \<mapsto> ''Bug'', ''Improvement'' \<mapsto> ''Story''],
                defaultIssueType = ''Technical Support''\<rparr>"]
  by (simp add: Object_prototype_members_def maps_to_nonempty_def)

text \<open>
  The case left out of the amended claim: a label that names an inherited member and is
  no key of the mappings makes the function return that member, which is not a string.
\<close>

lemma inherited_member_returned:
  "snd (mapGitHubLabelsToJiraIssueType [''constructor'']
          (Inr \<lparr>mappings = [''Bug Report'' \<mapsto> ''Bug''],
                defaultIssueType = ''Technical Support''\<rparr>))
     = Inherited_property ''constructor''"
  by (simp add: mapGitHubLabelsToJiraIssueType_def get_property_def Object_prototype_members_def)

text \<open>
  C3. When reading or parsing the configuration throws, the function returns for every
  label list: it logs the error and the fallback and returns the fixed issue type
  \<open>"Task"\<close>. With a loaded configuration and an empty label list, or labels none of
  which has a truthy mapping, it logs and returns the default issue type of the
  configuration instead. The two paths differ for every input: their console output is
  never the same.
\<close>

theorem load_failure_returns_Task:
  "mapGitHubLabelsToJiraIssueType githubLabels (Inl message)
     = ([Error_reading_mapping_configuration message, Falling_back_to_Task],
        String_property ''Task'')
   \<and> mapGitHubLabelsToJiraIssueType [] (Inr config)
     = ([Log_value (defaultIssueType config)], String_property (defaultIssueType config))
   \<and> ((\<forall>l \<in> set unmatched. \<not> truthy_property (get_property (mappings config) l)) \<longrightarrow>
        mapGitHubLabelsToJiraIssueType unmatched (Inr config)
          = ([Log_value (defaultIssueType config)], String_property (defaultIssueType config)))
   \<and> fst (mapGitHubLabelsToJiraIssueType githubLabels (Inl message))
        \<noteq> fst (mapGitHubLabelsToJiraIssueType otherLabels (Inr config))"
  by (auto simp: mapGitHubLabelsToJiraIssueType_def labels_loop_unmatched split: option.splits)

theorem load_failure_returns_Task_witness:
  "mapGitHubLabelsToJiraIssueType [''Bug Report''] (Inl ''ENOENT: no such file or directory'')
     = ([Error_reading_mapping_configuration ''ENOENT: no such file or directory'',
         Falling_back_to_Task], String_property ''Task'')
   \<and> mapGitHubLabelsToJiraIssueType [''Unknown Label'']
        (Inr \<lparr>mappings = [''Bug Report'' \<mapsto> ''Bug''],
              defaultIssueType = ''Technical Support''\<rparr>)
     = ([Log_value ''Technical Support''], String_property ''Technical Support'')"
  using load_failure_returns_Task
     [of "[''Bug Report'']" "''ENOENT: no such file or directory''"
         "\<lparr>mappings = [''Bug Report'' \<mapsto> ''Bug''],
           defaultIssueType = ''Technical Support''\<rparr>"
         "[''Unknown Label'']" "[]"]
  by (simp add: get_property_def Object_prototype_members_def)

section \<open>Classification\<close>

lemma push_areas_filter:
  "push_areas body areas acc = acc @ filter (\<lambda>area. areaRegex_test area body) areas"
  by (induction areas arbitrary: acc) simp_all

text \<open>
  C10. The labels of the result are the normalized input: for each entry the string
  itself or the name of the object, in input order, and the empty list when the issue has
  no labels field. The issue type is what \<open>mapGitHubLabelsToJiraIssueType\<close> returns on
  that list, the priority what \<open>mapPriority\<close> returns on the issue, the components the
  platform areas, in their order, whose pattern matches the body.
\<close>

theorem classification_fields:
  "labels (snd (mapGitHubIssueToJiraFields githubIssue loaded))
     = (case issue_labels githubIssue of
          None \<Rightarrow> []
        | Some entries \<Rightarrow>
            map (\<lambda>entry. case entry of Label_string s \<Rightarrow> s | Label_object name \<Rightarrow> name) entries)
   \<and> issueType (snd (mapGitHubIssueToJiraFields githubIssue loaded))
     = snd (mapGitHubLabelsToJiraIssueType
              (labels (snd (mapGitHubIssueToJiraFields githubIssue loaded))) loaded)
   \<and> priority (snd (mapGitHubIssueToJiraFields githubIssue loaded)) = mapPriority githubIssue
   \<and> components (snd (mapGitHubIssueToJiraFields githubIssue loaded))
     = filter (\<lambda>area. areaRegex_test area (or_empty (issue_body githubIssue))) platformAreas
   \<and> originalLabels (snd (mapGitHubIssueToJiraFields githubIssue loaded))
     = issue_labels githubIssue"
  by (simp add: mapGitHubIssueToJiraFields_def Let_def push_areas_filter label_name_def
      split: prod.splits option.splits cong: map_cong)

section \<open>Lines and trimming\<close>

lemma split_at_not_Nil: "split_at sep s \<noteq> []"
  by (induction s) (auto split: list.splits)

lemma concat_split_at: "concat (split_at sep s) = filter (\<lambda>c. \<not> sep c) s"
  by (induction s) (auto split: list.splits simp: split_at_not_Nil)

lemma trim_Nil_iff: "trim s = [] \<longleftrightarrow> (\<forall>c \<in> set s. is_whitespace c)"
proof -
  let ?x = "dropWhile is_whitespace s"
  have "trim s = [] \<longleftrightarrow> (\<forall>c \<in> set ?x. is_whitespace c)"
    by (simp add: trim_def)
  also have "\<dots> \<longleftrightarrow> (\<forall>c \<in> set s. is_whitespace c)"
  proof
    assume a: "\<forall>c \<in> set ?x. is_whitespace c"
    show "\<forall>c \<in> set s. is_whitespace c"
    proof (rule ccontr)
      assume "\<not> (\<forall>c \<in> set s. is_whitespace c)"
      then have n: "?x \<noteq> []" by simp
      then have "\<not> is_whitespace (hd ?x)" by (rule hd_dropWhile)
      moreover from n have "hd ?x \<in> set ?x" by (rule hd_in_set)
      ultimately show False using a by blast
    qed
  next
    assume "\<forall>c \<in> set s. is_whitespace c"
    then show "\<forall>c \<in> set ?x. is_whitespace c" by (blast dest: set_dropWhileD)
  qed
  finally show ?thesis .
qed

lemma rev_dropWhile_rev_take:
  "rev (dropWhile P (rev xs)) = take (length xs - length (takeWhile P (rev xs))) xs"
proof -
  have "dropWhile P (rev xs) = drop (length (takeWhile P (rev xs))) (rev xs)"
    by (rule dropWhile_eq_drop)
  then show ?thesis by (simp add: rev_drop)
qed

lemma trimmed_trim: "trimmed (trim s)"
proof (cases "trim s = []")
  case True
  then show ?thesis by (simp add: trimmed_def)
next
  case False
  let ?x = "dropWhile is_whitespace s"
  let ?y = "dropWhile is_whitespace (rev ?x)"
  from False have y: "?y \<noteq> []" by (simp add: trim_def)
  then have x: "?x \<noteq> []" by (metis dropWhile.simps(1) rev.simps(1))
  have "last (trim s) = hd ?y" using y by (simp add: trim_def last_rev)
  moreover have "\<not> is_whitespace (hd ?y)" using y by (rule hd_dropWhile)
  ultimately have l: "\<not> is_whitespace (last (trim s))" by simp
  have t: "trim s = take (length ?x - length (takeWhile is_whitespace (rev ?x))) ?x"
    unfolding trim_def by (rule rev_dropWhile_rev_take)
  with False have "0 < length ?x - length (takeWhile is_whitespace (rev ?x))" by auto
  with t x have "hd (trim s) = hd ?x" by (metis hd_take)
  moreover have "\<not> is_whitespace (hd ?x)" using x by (rule hd_dropWhile)
  ultimately show ?thesis using l by (simp add: trimmed_def)
qed

lemma trim_trimmed: "trimmed t \<Longrightarrow> trim t = t"
proof (cases "t = []")
  case True
  then show ?thesis by (simp add: trim_def)
next
  case False
  assume "trimmed t"
  with False have h: "\<not> is_whitespace (hd t)" and l: "\<not> is_whitespace (last t)"
    by (auto simp: trimmed_def)
  from False h have "dropWhile is_whitespace t = t" by (cases t) auto
  moreover from False l have "dropWhile is_whitespace (rev t) = rev t"
    by (cases "rev t") (auto simp: last_rev [symmetric] hd_rev)
  ultimately show ?thesis by (simp add: trim_def)
qed

lemma trim_idem: "trim (trim s) = trim s"
  by (rule trim_trimmed) (rule trimmed_trim)

lemma has_text_iff: "has_text body \<longleftrightarrow> (\<exists>b. body = Some b \<and> (\<exists>c \<in> set b. \<not> is_whitespace c))"
  by (cases body) (auto simp: has_text_def trim_Nil_iff)

lemma newline_is_whitespace: "is_whitespace (CHR 0x0A)"
  by (simp add: is_whitespace_def)

lemma retained_lines_iff: "retained_lines s \<noteq> [] \<longleftrightarrow> (\<exists>c \<in> set s. \<not> is_whitespace c)"
proof
  assume "retained_lines s \<noteq> []"
  then obtain line where "line \<in> set (split_newline s)" "trim line \<noteq> []"
    by (auto simp: retained_lines_def filter_empty_conv)
  then obtain c where "c \<in> set line" "\<not> is_whitespace c" by (auto simp: trim_Nil_iff)
  with \<open>line \<in> set (split_newline s)\<close> have "c \<in> set (concat (split_newline s))" by auto
  then have "c \<in> set s" by (simp add: split_newline_def concat_split_at)
  with \<open>\<not> is_whitespace c\<close> show "\<exists>c \<in> set s. \<not> is_whitespace c" by blast
next
  assume "\<exists>c \<in> set s. \<not> is_whitespace c"
  then obtain c where c: "c \<in> set s" "\<not> is_whitespace c" by blast
  then have "c \<noteq> CHR 0x0A" using newline_is_whitespace by auto
  with c have "c \<in> set (concat (split_newline s))"
    by (simp add: split_newline_def concat_split_at)
  then obtain line where "line \<in> set (split_newline s)" "c \<in> set line" by auto
  with c have "trim line \<noteq> []" by (auto simp: trim_Nil_iff)
  with \<open>line \<in> set (split_newline s)\<close> show "retained_lines s \<noteq> []"
    by (auto simp: retained_lines_def filter_empty_conv)
qed

section \<open>Documents from plain text\<close>

text \<open>
  C5. \<open>textToADF\<close> returns a document for every argument (it is a total function: no
  input makes it throw). For an argument that is not a string, and for the empty string,
  the content is empty. Otherwise the text is split at the line breaks, the lines that
  are empty after trimming are discarded, and each retained line gives one paragraph
  holding exactly one text node. When no line is retained and the text is not empty, the
  content is a single paragraph whose text node carries the text as it came, untrimmed.
\<close>

theorem textToADF_cases:
  "(typeof v \<noteq> ''string'' \<longrightarrow> textToADF v = adf_doc [])
   \<and> textToADF (JStr []) = adf_doc []
   \<and> (retained_lines s \<noteq> [] \<longrightarrow>
        textToADF (JStr s)
          = adf_doc (map (\<lambda>line. paragraph_node [text_node (trim line)]) (retained_lines s)))
   \<and> (s \<noteq> [] \<and> retained_lines s = [] \<longrightarrow>
        textToADF (JStr s) = adf_doc [paragraph_node [text_node s]])"
proof -
  have "retained_lines [] = []" by (simp add: retained_lines_def split_newline_def trim_def)
  then show ?thesis
    by (cases v)
       (auto simp: textToADF_def adf_doc_def paragraph_node_def text_node_def
          retained_lines_def Let_def)
qed

theorem textToADF_cases_witness:
  "textToADF (JNum 5) = adf_doc []
   \<and> textToADF (JStr ''Line 1\<newline>Line 2\<newline>\<newline>Line 3'')
       = adf_doc [paragraph_node [text_node ''Line 1''], paragraph_node [text_node ''Line 2''],
                  paragraph_node [text_node ''Line 3'']]
   \<and> textToADF (JStr ''  '') = adf_doc [paragraph_node [text_node ''  '']]"
proof -
  have r1: "retained_lines ''Line 1\<newline>Line 2\<newline>\<newline>Line 3'' = [''Line 1'', ''Line 2'', ''Line 3'']"
    by code_simp
  have t: "map trim [''Line 1'', ''Line 2'', ''Line 3''] = [''Line 1'', ''Line 2'', ''Line 3'']"
    by code_simp
  have r2: "retained_lines ''  '' = []" by code_simp
  from t have t': "trim ''Line 1'' = ''Line 1''" "trim ''Line 2'' = ''Line 2''" "trim ''Line 3'' = ''Line 3''"
    by simp_all
  show ?thesis
    using textToADF_cases [of "JNum 5" "''Line 1\<newline>Line 2\<newline>\<newline>Line 3''"]
      textToADF_cases [of "JNum 5" "''  ''"]
    by (simp add: r1 r2 t')
qed

section \<open>Validity of the built documents\<close>

lemma isValidADF_adf_doc: "isValidADF (adf_doc content)"
  by (simp add: isValidADF_def adf_doc_def)

lemma textToADF_is_doc: "\<exists>content. textToADF v = adf_doc content"
  by (cases v) (auto simp: textToADF_def adf_doc_def Let_def)

lemma isValidADF_textToADF: "isValidADF (textToADF v)"
  using textToADF_is_doc [of v] by (auto simp: isValidADF_adf_doc)

lemma isValidADF_iff:
  "isValidADF v \<longleftrightarrow>
     (\<exists>kvs content. v = JObj kvs \<and> map_of kvs ''type'' = Some (JStr ''doc'')
        \<and> map_of kvs ''version'' = Some (JNum 1) \<and> map_of kvs ''content'' = Some (JArr content))"
proof (cases v)
  case (JObj kvs)
  have "isArray x \<longleftrightarrow> (\<exists>c. x = JArr c)" for x by (cases x) simp_all
  with JObj show ?thesis
    by (auto simp: isValidADF_def split: option.splits)
qed (simp_all add: isValidADF_def)

text \<open>
  C7. Every document that a builder function returns satisfies \<open>isValidADF\<close>: it is an
  object whose type is \<open>"doc"\<close>, whose version is 1 and whose content is an array
  (\<open>isValidADF_iff\<close>). \<open>createFormattedADF\<close> and \<open>combineADFContent\<close> throw when
  their argument is no array (the former also on a null node), and return a valid
  document otherwise.
\<close>

theorem builders_return_valid_documents:
  "isValidADF (textToADF text)
   \<and> (createFormattedADF textNodes = Inr formatted \<longrightarrow> isValidADF formatted)
   \<and> isValidADF (createBulletListADF items)
   \<and> isValidADF (createOrderedListADF items)
   \<and> isValidADF (createHeadingWithContentADF headingText level content)
   \<and> isValidADF (createCodeBlockADF code language)
   \<and> isValidADF (createLinkADF linkText url)
   \<and> (combineADFContent contentBlocks = Inr combined \<longrightarrow> isValidADF combined)"
proof -
  have 1: "createFormattedADF textNodes = Inr formatted \<longrightarrow> isValidADF formatted"
    by (auto simp: createFormattedADF_def isValidADF_def split: jsvalue.splits sum.splits)
  have 2: "isValidADF (createBulletListADF items)"
    using isValidADF_textToADF [of "JStr []"]
    by (cases items) (simp_all add: createBulletListADF_def isValidADF_def)
  have 3: "isValidADF (createOrderedListADF items)"
    using isValidADF_textToADF [of "JStr []"]
    by (cases items) (simp_all add: createOrderedListADF_def isValidADF_def)
  have 4: "isValidADF (createHeadingWithContentADF headingText level content)"
    by (simp add: createHeadingWithContentADF_def isValidADF_def Let_def)
  have 5: "isValidADF (createCodeBlockADF code language)"
    by (simp add: createCodeBlockADF_def isValidADF_def Let_def)
  have 6: "isValidADF (createLinkADF linkText url)"
    by (simp add: createLinkADF_def isValidADF_def)
  have 7: "combineADFContent contentBlocks = Inr combined \<longrightarrow> isValidADF combined"
    by (auto simp: combineADFContent_def isValidADF_def split: jsvalue.splits)
  from 1 2 3 4 5 6 7 show ?thesis by (simp add: isValidADF_textToADF)
qed

theorem builders_return_valid_documents_witness:
  "createFormattedADF
      (JArr [JObj [(''text'', JStr ''Normal text '')],
             JObj [(''text'', JStr ''bold text''), (''marks'', JArr [JObj [(''type'', JStr ''strong'')]])]])
     = Inr (adf_doc [paragraph_node
              [text_node ''Normal text '',
               JObj [(''type'', JStr ''text''), (''text'', JStr ''bold text''),
                     (''marks'', JArr [JObj [(''type'', JStr ''strong'')]])]]])
   \<and> isValidADF (adf_doc [paragraph_node
              [text_node ''Normal text '',
               JObj [(''type'', JStr ''text''), (''text'', JStr ''bold text''),
                     (''marks'', JArr [JObj [(''type'', JStr ''strong'')]])]]])
   \<and> combineADFContent (JArr [rule_node, JNull, paragraph_node [text_node ''a'']])
     = Inr (adf_doc [rule_node, paragraph_node [text_node ''a'']])
   \<and> isValidADF (adf_doc [rule_node, paragraph_node [text_node ''a'']])"
proof -
  have a: "createFormattedADF
      (JArr [JObj [(''text'', JStr ''Normal text '')],
             JObj [(''text'', JStr ''bold text''), (''marks'', JArr [JObj [(''type'', JStr ''strong'')]])]])
     = Inr (adf_doc [paragraph_node
              [text_node ''Normal text '',
               JObj [(''type'', JStr ''text''), (''text'', JStr ''bold text''),
                     (''marks'', JArr [JObj [(''type'', JStr ''strong'')]])]]])"
    by (simp add: createFormattedADF_def formatted_node_def adf_doc_def paragraph_node_def
        text_node_def)
  have b: "combineADFContent (JArr [rule_node, JNull, paragraph_node [text_node ''a'']])
     = Inr (adf_doc [rule_node, paragraph_node [text_node ''a'']])"
    by (simp add: combineADFContent_def adf_doc_def paragraph_node_def text_node_def rule_node_def)
  from a b
    builders_return_valid_documents
      [of JNull "JArr [JObj [(''text'', JStr ''Normal text '')],
             JObj [(''text'', JStr ''bold text''), (''marks'', JArr [JObj [(''type'', JStr ''strong'')]])]]"
          "adf_doc [paragraph_node
              [text_node ''Normal text '',
               JObj [(''type'', JStr ''text''), (''text'', JStr ''bold text''),
                     (''marks'', JArr [JObj [(''type'', JStr ''strong'')]])]]]"
          JNull JNull None JNull JNull JNull JNull JNull
          "JArr [rule_node, JNull, paragraph_node [text_node ''a'']]"
          "adf_doc [rule_node, paragraph_node [text_node ''a'']]"]
  show ?thesis by simp
qed

section \<open>The description of a new issue\<close>

lemma Serialize_throws_iff:
  "(\<exists>e. SerializeJSONProperty v = Inl e) \<longleftrightarrow> contains_bigint v"
  "(\<exists>e. SerializeJSONArray xs = Inl e) \<longleftrightarrow> contains_bigint_list xs"
  "(\<exists>e. SerializeJSONObject kvs = Inl e) \<longleftrightarrow> contains_bigint_props kvs"
  by (induction v and xs and kvs rule: SerializeJSONProperty_SerializeJSONArray_SerializeJSONObject.induct)
     (auto split: sum.splits)

lemma JSON_stringify_throws_iff: "(\<exists>e. JSON_stringify v = Inl e) \<longleftrightarrow> contains_bigint v"
  using Serialize_throws_iff(1) [of v]
  by (auto simp: JSON_stringify_def split: sum.splits option.splits)

text \<open>
  C6, as stated, fails: an object that is no valid document is handed to
  \<open>JSON.stringify\<close>, which throws a TypeError on a BigInt; the \<open>catch\<close> clause of
  \<open>createIssue\<close> logs the exception and throws it again.
\<close>

theorem bigint_description_counterexample:
  "createIssue_adfDescription (JObj [(''estimate'', JBigInt 5)]) = Inl TypeError"
  by (simp add: createIssue_adfDescription_def isValidADF_def JSON_stringify_def)

text \<open>
  C6, amended. A null or absent description gives the document with empty content; a
  string is passed through \<open>textToADF\<close>; a valid document is used as it is; any other
  object is stringified and, when \<open>JSON.stringify\<close> returns, its text is passed
  through \<open>textToADF\<close>. For every description that holds no BigInt the step returns,
  and whenever it returns the description field is a valid document. (It throws exactly
  when \<open>JSON.stringify\<close> does.)
\<close>

theorem description_is_valid_document:
  "(description = JNull \<or> description = JUndefined \<longrightarrow>
      createIssue_adfDescription description = Inr (adf_doc []))
   \<and> createIssue_adfDescription (JStr s) = Inr (textToADF (JStr s))
   \<and> (isValidADF description \<longrightarrow> createIssue_adfDescription description = Inr description)
   \<and> (typeof description = ''object'' \<and> description \<noteq> JNull \<and> \<not> isValidADF description \<longrightarrow>
        createIssue_adfDescription description
          = (case JSON_stringify description of
               Inl e \<Rightarrow> Inl e
             | Inr text \<Rightarrow> Inr (textToADF text)))
   \<and> (\<not> contains_bigint description \<longrightarrow>
        (\<exists>doc. createIssue_adfDescription description = Inr doc))
   \<and> (createIssue_adfDescription description = Inr doc \<longrightarrow> isValidADF doc)"
proof -
  have e: "textToADF (JStr []) = adf_doc []"
    by (simp add: textToADF_def adf_doc_def)
  have 1: "description = JNull \<or> description = JUndefined \<longrightarrow>
      createIssue_adfDescription description = Inr (adf_doc [])"
    by (auto simp: createIssue_adfDescription_def e)
  have 2: "createIssue_adfDescription (JStr s) = Inr (textToADF (JStr s))"
    by (simp add: createIssue_adfDescription_def)
  have 3: "isValidADF description \<longrightarrow> createIssue_adfDescription description = Inr description"
    by (auto simp: createIssue_adfDescription_def isValidADF_def)
  have 4: "typeof description = ''object'' \<and> description \<noteq> JNull \<and> \<not> isValidADF description \<longrightarrow>
        createIssue_adfDescription description
          = (case JSON_stringify description of
               Inl e \<Rightarrow> Inl e
             | Inr text \<Rightarrow> Inr (textToADF text))"
    by (cases description) (auto simp: createIssue_adfDescription_def)
  have 5: "\<not> contains_bigint description \<longrightarrow>
        (\<exists>doc. createIssue_adfDescription description = Inr doc)"
    using JSON_stringify_throws_iff [of description]
    by (auto simp: createIssue_adfDescription_def split: sum.splits)
  have 6: "createIssue_adfDescription description = Inr doc \<longrightarrow> isValidADF doc"
    by (auto simp: createIssue_adfDescription_def isValidADF_textToADF
        split: if_splits sum.splits)
  from 1 2 3 4 5 6 show ?thesis by blast
qed

theorem description_is_valid_document_witness:
  "createIssue_adfDescription JNull = Inr (adf_doc [])
   \<and> createIssue_adfDescription (adf_doc [rule_node]) = Inr (adf_doc [rule_node])
   \<and> createIssue_adfDescription (JObj [(''a'', JStr ''b'')])
       = Inr (adf_doc [paragraph_node
                [text_node [CHR ''{'', CHR 0x22, CHR ''a'', CHR 0x22, CHR '':'',
                            CHR 0x22, CHR ''b'', CHR 0x22, CHR ''}'']]])
   \<and> isValidADF (adf_doc [paragraph_node
                [text_node [CHR ''{'', CHR 0x22, CHR ''a'', CHR 0x22, CHR '':'',
                            CHR 0x22, CHR ''b'', CHR 0x22, CHR ''}'']]])"
proof -
  let ?text = "[CHR ''{'', CHR 0x22, CHR ''a'', CHR 0x22, CHR '':'',
                CHR 0x22, CHR ''b'', CHR 0x22, CHR ''}'']"
  have s: "JSON_stringify (JObj [(''a'', JStr ''b'')]) = Inr (JStr ?text)"
    by code_simp
  have t: "textToADF (JStr ?text) = adf_doc [paragraph_node [text_node ?text]]"
    by code_simp
  have n: "\<not> isValidADF (JObj [(''a'', JStr ''b'')])"
    by (simp add: isValidADF_def)
  show ?thesis
    using description_is_valid_document [of JNull "[]" "adf_doc []"]
      description_is_valid_document [of "adf_doc [rule_node]" "[]" "adf_doc []"]
      description_is_valid_document
        [of "JObj [(''a'', JStr ''b'')]" "[]" "adf_doc [paragraph_node [text_node ?text]]"]
    by (simp add: s t n isValidADF_adf_doc)
qed

section \<open>The description built from a GitHub issue\<close>

lemma push_paragraphs_map:
  "push_paragraphs paragraphs content
     = content @ map (\<lambda>line. paragraph_node [text_node (trim line)]) paragraphs"
  by (induction paragraphs arbitrary: content) (simp_all add: paragraph_node_def text_node_def)

text \<open>
  C8. The content of the document is, in this order: the paragraph with the literal
  "Original GitHub Issue: " followed by the text node that carries the url and a link
  mark to the url; the "Created by" paragraph; the "Created at" paragraph; a rule; the
  emphasized labels paragraph when the labels are a non-empty list; the emphasized
  issue-type and priority paragraphs when these are present and not empty; and, when
  the body is present and has a character that is no white space, a second rule
  followed by one paragraph for each non-empty line of the body, and nothing otherwise.
\<close>

theorem createGitHubIssueADF_blocks:
  "createGitHubIssueADF githubUrl author createdAt body mappingInfo =
     adf_doc
       ([paragraph_node [text_node ''Original GitHub Issue: '', link_node githubUrl githubUrl],
         paragraph_node [text_node (''Created by: '' @ author)],
         paragraph_node [text_node (''Created at: '' @ createdAt)],
         rule_node]
        @ (case info_labels mappingInfo of
             Some ls \<Rightarrow>
               if ls \<noteq> [] then [paragraph_node [em_node (''GitHub Labels: '' @ join '', '' ls)]]
               else []
           | None \<Rightarrow> [])
        @ (case info_issueType mappingInfo of
             Some t \<Rightarrow>
               if t \<noteq> [] then [paragraph_node [em_node (''Mapped to Issue Type: '' @ t)]] else []
           | None \<Rightarrow> [])
        @ (case info_priority mappingInfo of
             Some p \<Rightarrow> if p \<noteq> [] then [paragraph_node [em_node (''Priority: '' @ p)]] else []
           | None \<Rightarrow> [])
        @ (if \<exists>b. body = Some b \<and> (\<exists>c \<in> set b. \<not> is_whitespace c)
           then rule_node
                # map (\<lambda>line. paragraph_node [text_node (trim line)])
                    (retained_lines (or_empty body))
           else []))"
proof -
  have h: "has_text body \<longleftrightarrow> (\<exists>b. body = Some b \<and> (\<exists>c \<in> set b. \<not> is_whitespace c))"
    by (rule has_text_iff)
  show ?thesis
    unfolding createGitHubIssueADF_def Let_def push_paragraphs_map h [symmetric]
    by (simp add: adf_doc_def paragraph_node_def text_node_def link_node_def em_node_def
        rule_node_def paragraph_em_def retained_lines_def
        split: option.splits)
qed

theorem createGitHubIssueADF_blocks_witness:
  "createGitHubIssueADF ''https://github.com/o/r/issues/1'' ''alice'' ''2023-12-01T10:30:00Z''
     (Some ''  Line 1  \<newline>\<newline>Line 2'')
     \<lparr>info_labels = Some [''Bug Report'', ''UI''], info_issueType = Some ''Bug'',
      info_priority = Some []\<rparr>
   = adf_doc
       [paragraph_node [text_node ''Original GitHub Issue: '',
                        link_node ''https://github.com/o/r/issues/1''
                          ''https://github.com/o/r/issues/1''],
        paragraph_node [text_node ''Created by: alice''],
        paragraph_node [text_node ''Created at: 2023-12-01T10:30:00Z''],
        rule_node,
        paragraph_node [em_node ''GitHub Labels: Bug Report, UI''],
        paragraph_node [em_node ''Mapped to Issue Type: Bug''],
        rule_node,
        paragraph_node [text_node ''Line 1''],
        paragraph_node [text_node ''Line 2'']]
   \<and> createGitHubIssueADF ''https://github.com/o/r/issues/1'' ''alice'' ''2023-12-01T10:30:00Z''
     (Some '' '') \<lparr>info_labels = Some [], info_issueType = None, info_priority = None\<rparr>
   = adf_doc
       [paragraph_node [text_node ''Original GitHub Issue: '',
                        link_node ''https://github.com/o/r/issues/1''
                          ''https://github.com/o/r/issues/1''],
        paragraph_node [text_node ''Created by: alice''],
        paragraph_node [text_node ''Created at: 2023-12-01T10:30:00Z''],
        rule_node]"
proof -
  let ?s = "''  Line 1  \<newline>\<newline>Line 2''"
  have r: "retained_lines ?s = [''  Line 1  '', ''Line 2'']" by code_simp
  have t: "map trim [''  Line 1  '', ''Line 2''] = [''Line 1'', ''Line 2'']" by code_simp
  have w: "\<not> is_whitespace (CHR ''L'')" "is_whitespace (CHR '' '')"
    by (simp_all add: is_whitespace_def)
  show ?thesis
    using createGitHubIssueADF_blocks
      [of "''https://github.com/o/r/issues/1''" "''alice''" "''2023-12-01T10:30:00Z''" "Some ?s"
          "\<lparr>info_labels = Some [''Bug Report'', ''UI''], info_issueType = Some ''Bug'',
            info_priority = Some []\<rparr>"]
      createGitHubIssueADF_blocks
      [of "''https://github.com/o/r/issues/1''" "''alice''" "''2023-12-01T10:30:00Z''" "Some '' ''"
          "\<lparr>info_labels = Some [], info_issueType = None, info_priority = None\<rparr>"]
      t
    by (simp add: r w or_empty_def)
qed

section \<open>Trimmed lines\<close>

lemma doc_blocks_adf_doc: "doc_blocks (adf_doc blocks) = blocks"
  by (simp add: doc_blocks_def adf_doc_def)

lemma block_texts_line: "block_texts (paragraph_node [text_node t]) = [JStr t]"
  by (simp add: block_texts_def paragraph_node_def text_node_def)

lemma textToADF_retained:
  "retained_lines s \<noteq> [] \<Longrightarrow>
   textToADF (JStr s)
     = adf_doc (map (\<lambda>line. paragraph_node [text_node (trim line)]) (retained_lines s))"
proof -
  assume r: "retained_lines s \<noteq> []"
  then have "s \<noteq> []" by (auto simp: retained_lines_iff)
  with r show ?thesis
    by (simp add: textToADF_def adf_doc_def paragraph_node_def text_node_def
          retained_lines_def Let_def)
qed

lemma createGitHubIssueADF_body:
  assumes "has_text body"
  shows "\<exists>header.
           createGitHubIssueADF githubUrl author createdAt body mappingInfo
             = adf_doc (header @ [rule_node]
                 @ map (\<lambda>line. paragraph_node [text_node (trim line)])
                     (retained_lines (or_empty body)))"
proof -
  have "\<exists>header. (xs @ [r]) @ ys = header @ [r] @ ys" for xs ys :: "jsvalue list" and r
    by auto
  with assms show ?thesis
    unfolding createGitHubIssueADF_def Let_def push_paragraphs_map
    by (simp add: adf_doc_def rule_node_def retained_lines_def)
qed

text \<open>
  C9. In the document of \<open>textToADF\<close>, when some line is retained, and in the body part
  of the document of \<open>createGitHubIssueADF\<close>, after its second rule, the paragraph of
  each retained line holds one text node whose text is the trimmed line. A trimmed line
  has no white space at either end, trimming it again changes nothing, and for a retained
  line it is not empty.
\<close>

theorem retained_lines_are_trimmed:
  "(retained_lines s \<noteq> [] \<longrightarrow>
      map block_texts (doc_blocks (textToADF (JStr s)))
        = map (\<lambda>line. [JStr (trim line)]) (retained_lines s))
   \<and> (has_text body \<longrightarrow>
        (\<exists>header lines.
           doc_blocks (createGitHubIssueADF githubUrl author createdAt body mappingInfo)
             = header @ [rule_node] @ lines
           \<and> map block_texts lines
             = map (\<lambda>line. [JStr (trim line)]) (retained_lines (or_empty body))))
   \<and> trimmed (trim line) \<and> trim (trim line) = trim line
   \<and> (line \<in> set (retained_lines s) \<longrightarrow> trim line \<noteq> [])"
proof -
  have 1: "retained_lines s \<noteq> [] \<longrightarrow>
      map block_texts (doc_blocks (textToADF (JStr s)))
        = map (\<lambda>line. [JStr (trim line)]) (retained_lines s)"
    by (simp add: textToADF_retained doc_blocks_adf_doc block_texts_line)
  have 2: "has_text body \<longrightarrow>
        (\<exists>header lines.
           doc_blocks (createGitHubIssueADF githubUrl author createdAt body mappingInfo)
             = header @ [rule_node] @ lines
           \<and> map block_texts lines
             = map (\<lambda>line. [JStr (trim line)]) (retained_lines (or_empty body)))"
  proof
    assume "has_text body"
    then obtain header where
      "createGitHubIssueADF githubUrl author createdAt body mappingInfo
         = adf_doc (header @ [rule_node]
             @ map (\<lambda>line. paragraph_node [text_node (trim line)])
                 (retained_lines (or_empty body)))"
      using createGitHubIssueADF_body by blast
    then have "doc_blocks (createGitHubIssueADF githubUrl author createdAt body mappingInfo)
         = header @ [rule_node]
             @ map (\<lambda>line. paragraph_node [text_node (trim line)])
                 (retained_lines (or_empty body))"
      by (simp only: doc_blocks_adf_doc)
    moreover have "map block_texts (map (\<lambda>line. paragraph_node [text_node (trim line)])
                 (retained_lines (or_empty body)))
             = map (\<lambda>line. [JStr (trim line)]) (retained_lines (or_empty body))"
      by (simp add: block_texts_line)
    ultimately show "\<exists>header lines.
           doc_blocks (createGitHubIssueADF githubUrl author createdAt body mappingInfo)
             = header @ [rule_node] @ lines
           \<and> map block_texts lines
             = map (\<lambda>line. [JStr (trim line)]) (retained_lines (or_empty body))"
      by blast
  qed
  have 3: "line \<in> set (retained_lines s) \<longrightarrow> trim line \<noteq> []"
    by (simp add: retained_lines_def)
  from 1 2 3 show ?thesis by (simp add: trimmed_trim trim_idem)
qed

theorem retained_lines_are_trimmed_witness:
  "map block_texts (doc_blocks (textToADF (JStr ''  Line 1  \<newline>\<newline>Line 2'')))
     = [[JStr ''Line 1''], [JStr ''Line 2'']]
   \<and> (\<exists>header lines.
         doc_blocks (createGitHubIssueADF ''https://github.com/o/r/issues/1'' ''alice''
                       ''2023-12-01T10:30:00Z'' (Some ''  Line 1  \<newline>\<newline>Line 2'')
                       \<lparr>info_labels = None, info_issueType = None, info_priority = None\<rparr>)
           = header @ [rule_node] @ lines
         \<and> map block_texts lines = [[JStr ''Line 1''], [JStr ''Line 2'']])
   \<and> trimmed (trim ''  Line 1  '') \<and> trim ''  Line 1  '' \<noteq> []"
proof -
  let ?s = "''  Line 1  \<newline>\<newline>Line 2''"
  have r: "retained_lines ?s = [''  Line 1  '', ''Line 2'']" by code_simp
  have t: "map trim [''  Line 1  '', ''Line 2''] = [''Line 1'', ''Line 2'']" by code_simp
  have h: "has_text (Some ?s)" by code_simp
  show ?thesis
    using retained_lines_are_trimmed
      [of ?s "Some ?s" "''https://github.com/o/r/issues/1''" "''alice''" "''2023-12-01T10:30:00Z''"
          "\<lparr>info_labels = None, info_issueType = None, info_priority = None\<rparr>" "''  Line 1  ''"]
      t
    by (simp add: r h or_empty_def)
qed

section \<open>The pattern of a platform area\<close>

subsection \<open>What the matcher accepts\<close>

lemma matches_WhitespaceStar:
  assumes "\<And>prev s. matches_from atoms prev s = Q s"
  shows "matches_from (WhitespaceStar # atoms) prev s
     \<longleftrightarrow> (\<exists>w r. s = w @ r \<and> (\<forall>c \<in> set w. is_whitespace c) \<and> Q r)"
proof (induction s arbitrary: prev)
  case Nil
  then show ?case by (simp add: assms)
next
  case (Cons c cs)
  show ?case
  proof
    assume "matches_from (WhitespaceStar # atoms) prev (c # cs)"
    then consider "is_whitespace c" "matches_from (WhitespaceStar # atoms) (Some c) cs"
      | "Q (c # cs)"
      by (auto simp: assms)
    then show "\<exists>w r. c # cs = w @ r \<and> (\<forall>c \<in> set w. is_whitespace c) \<and> Q r"
    proof cases
      case 1
      then obtain w r where "cs = w @ r" "\<forall>c \<in> set w. is_whitespace c" "Q r"
        using Cons.IH by blast
      with 1 have "c # cs = (c # w) @ r \<and> (\<forall>x \<in> set (c # w). is_whitespace x) \<and> Q r"
        by simp
      then show ?thesis by blast
    next
      case 2
      then have "c # cs = [] @ (c # cs) \<and> (\<forall>x \<in> set []. is_whitespace x) \<and> Q (c # cs)"
        by simp
      then show ?thesis by blast
    qed
  next
    assume "\<exists>w r. c # cs = w @ r \<and> (\<forall>c \<in> set w. is_whitespace c) \<and> Q r"
    then obtain w r where wr: "c # cs = w @ r" "\<forall>c \<in> set w. is_whitespace c" "Q r"
      by blast
    show "matches_from (WhitespaceStar # atoms) prev (c # cs)"
    proof (cases w)
      case Nil
      with wr have "Q (c # cs)" by simp
      then show ?thesis by (simp add: assms)
    next
      case (Cons x w')
      with wr have "x = c" "cs = w' @ r" "is_whitespace c" "\<forall>c \<in> set w'. is_whitespace c"
        by auto
      with wr(3) have "matches_from (WhitespaceStar # atoms) (Some c) cs"
        using Cons.IH by blast
      with \<open>is_whitespace c\<close> show ?thesis by simp
    qed
  qed
qed

lemma matches_LineEnd: "matches_from [LineEnd] prev s = at_line_end s"
  by (simp add: at_line_end_def)

lemma matches_tail: "matches_from [WhitespaceStar, LineEnd] prev s = line_tail s"
  unfolding line_tail_def by (rule matches_WhitespaceStar) (rule matches_LineEnd)

lemma matches_Literals:
  assumes "\<And>prev s. matches_from atoms prev s = Q s"
  shows "matches_from (map Literal a @ atoms) prev s
     \<longleftrightarrow> (\<exists>m r. s = m @ r \<and> map canonicalize m = map canonicalize a \<and> Q r)"
proof (induction a arbitrary: prev s)
  case Nil
  then show ?case by (simp add: assms)
next
  case (Cons x a)
  show ?case
  proof (cases s)
    case Nil
    then show ?thesis by simp
  next
    case (Cons c cs)
    have "matches_from (map Literal (x # a) @ atoms) prev (c # cs)
       \<longleftrightarrow> canonicalize x = canonicalize c
           \<and> (\<exists>m r. cs = m @ r \<and> map canonicalize m = map canonicalize a \<and> Q r)"
      by (simp add: Cons.IH)
    also have "\<dots> \<longleftrightarrow> (\<exists>m r. c # cs = m @ r
                    \<and> map canonicalize m = map canonicalize (x # a) \<and> Q r)"
    proof
      assume "canonicalize x = canonicalize c
           \<and> (\<exists>m r. cs = m @ r \<and> map canonicalize m = map canonicalize a \<and> Q r)"
      then obtain m r where "canonicalize x = canonicalize c" "cs = m @ r"
        "map canonicalize m = map canonicalize a" "Q r" by blast
      then have "c # cs = (c # m) @ r
         \<and> map canonicalize (c # m) = map canonicalize (x # a) \<and> Q r" by simp
      then show "\<exists>m r. c # cs = m @ r
                    \<and> map canonicalize m = map canonicalize (x # a) \<and> Q r" by blast
    next
      assume "\<exists>m r. c # cs = m @ r
                    \<and> map canonicalize m = map canonicalize (x # a) \<and> Q r"
      then obtain m r where mr: "c # cs = m @ r"
        "map canonicalize m = map canonicalize (x # a)" "Q r" by blast
      then obtain y m' where m: "m = y # m'" by (cases m) auto
      with mr have "y = c" "cs = m' @ r" "canonicalize c = canonicalize x"
        "map canonicalize m' = map canonicalize a" by auto
      with mr(3) show "canonicalize x = canonicalize c
           \<and> (\<exists>m r. cs = m @ r \<and> map canonicalize m = map canonicalize a \<and> Q r)"
        by auto
    qed
    finally show ?thesis using Cons by simp
  qed
qed

lemma matches_tag_tail:
  "matches_from (map Literal a @ [WhitespaceStar, LineEnd]) prev s = tag_then_tail a s"
  unfolding tag_then_tail_def by (rule matches_Literals) (rule matches_tail)

lemma matches_areaRegex:
  "matches_from (areaRegex a) prev s
     \<longleftrightarrow> at_line_start prev
         \<and> (\<exists>w r. s = w @ r \<and> (\<forall>c \<in> set w. is_whitespace c) \<and> tag_then_tail a r)"
proof -
  have "matches_from (WhitespaceStar # map Literal a @ [WhitespaceStar, LineEnd]) prev s
     \<longleftrightarrow> (\<exists>w r. s = w @ r \<and> (\<forall>c \<in> set w. is_whitespace c) \<and> tag_then_tail a r)"
    by (rule matches_WhitespaceStar) (rule matches_tag_tail)
  then show ?thesis by (simp add: areaRegex_def at_line_start_def)
qed

lemma test_from_iff:
  "test_from atoms prev s
     \<longleftrightarrow> (\<exists>p r. s = p @ r \<and> matches_from atoms (if p = [] then prev else Some (last p)) r)"
proof (induction s arbitrary: prev)
  case Nil
  then show ?case by simp
next
  case (Cons c cs)
  show ?case
  proof
    assume "test_from atoms prev (c # cs)"
    then consider "matches_from atoms prev (c # cs)" | "test_from atoms (Some c) cs" by auto
    then show "\<exists>p r. c # cs = p @ r
                 \<and> matches_from atoms (if p = [] then prev else Some (last p)) r"
    proof cases
      case 1
      then have "c # cs = [] @ (c # cs)
         \<and> matches_from atoms (if [] = ([]::string) then prev else Some (last [])) (c # cs)"
        by simp
      then show ?thesis by blast
    next
      case 2
      then obtain p r where pr: "cs = p @ r"
        "matches_from atoms (if p = [] then Some c else Some (last p)) r"
        using Cons.IH by blast
      then have "c # cs = (c # p) @ r
         \<and> matches_from atoms (if c # p = [] then prev else Some (last (c # p))) r"
        by (cases p) simp_all
      then show ?thesis by blast
    qed
  next
    assume "\<exists>p r. c # cs = p @ r
                 \<and> matches_from atoms (if p = [] then prev else Some (last p)) r"
    then obtain p r where pr: "c # cs = p @ r"
      "matches_from atoms (if p = [] then prev else Some (last p)) r" by blast
    show "test_from atoms prev (c # cs)"
    proof (cases p)
      case Nil
      with pr have "matches_from atoms prev (c # cs)" by simp
      then show ?thesis by simp
    next
      case (Cons x p')
      with pr have "cs = p' @ r" "x = c" by auto
      moreover from pr Cons \<open>x = c\<close>
      have "matches_from atoms (if p' = [] then Some c else Some (last p')) r"
        by (cases p') simp_all
      ultimately have "test_from atoms (Some c) cs" using Cons.IH by blast
      then show ?thesis by simp
    qed
  qed
qed

subsection \<open>Lines of a body\<close>

lemma split_at_unfold:
  "split_at sep s =
     takeWhile (\<lambda>c. \<not> sep c) s
       # (case dropWhile (\<lambda>c. \<not> sep c) s of [] \<Rightarrow> [] | d # rest \<Rightarrow> split_at sep rest)"
  by (induction s) (auto split: list.splits)

lemma in_split_at_iff:
  "line \<in> set (split_at sep s)
     \<longleftrightarrow> (\<exists>p rest. s = p @ line @ rest \<and> (p = [] \<or> sep (last p))
            \<and> (rest = [] \<or> sep (hd rest)) \<and> (\<forall>c \<in> set line. \<not> sep c))"
proof (induction "length s" arbitrary: s rule: less_induct)
  case less
  let ?t = "takeWhile (\<lambda>c. \<not> sep c) s"
  let ?d = "dropWhile (\<lambda>c. \<not> sep c) s"
  have s: "s = ?t @ ?d" by simp
  have u: "set (split_at sep s)
             = insert ?t (case ?d of [] \<Rightarrow> {} | x # rest' \<Rightarrow> set (split_at sep rest'))"
  proof -
    have "set (split_at sep s)
            = set (?t # (case ?d of [] \<Rightarrow> [] | x # rest' \<Rightarrow> split_at sep rest'))"
      by (rule arg_cong [OF split_at_unfold])
    then show ?thesis by (cases "?d") (simp_all del: dropWhile_eq_Nil_conv)
  qed
  show ?case
  proof
    assume "line \<in> set (split_at sep s)"
    then consider "line = ?t" | x rest' where "?d = x # rest'" "line \<in> set (split_at sep rest')"
      unfolding u by (auto split: list.splits)
    then show "\<exists>p rest. s = p @ line @ rest \<and> (p = [] \<or> sep (last p))
            \<and> (rest = [] \<or> sep (hd rest)) \<and> (\<forall>c \<in> set line. \<not> sep c)"
    proof cases
      case 1
      have "?d = [] \<or> sep (hd ?d)" using hd_dropWhile [of "\<lambda>c. \<not> sep c" s] by blast
      moreover have "\<forall>c \<in> set ?t. \<not> sep c" by (auto dest: set_takeWhileD)
      moreover have "s = [] @ ?t @ ?d" by simp
      ultimately show ?thesis using 1 by blast
    next
      case 2
      have x: "sep x" using hd_dropWhile [of "\<lambda>c. \<not> sep c" s] 2(1) by auto
      have "length rest' < length s"
        using arg_cong [OF s, of length] 2(1) by simp
      with 2(2) obtain p' r' where pr: "rest' = p' @ line @ r'" "p' = [] \<or> sep (last p')"
        "r' = [] \<or> sep (hd r')" "\<forall>c \<in> set line. \<not> sep c"
        using less by blast
      have "s = (?t @ x # p') @ line @ r'" using s 2(1) pr(1) by (metis append.assoc append_Cons)
      moreover have "sep (last (?t @ x # p'))" using x pr(2) by auto
      ultimately show ?thesis using pr(3,4) by blast
    qed
  next
    assume "\<exists>p rest. s = p @ line @ rest \<and> (p = [] \<or> sep (last p))
            \<and> (rest = [] \<or> sep (hd rest)) \<and> (\<forall>c \<in> set line. \<not> sep c)"
    then obtain p rest where pr: "s = p @ line @ rest" "p = [] \<or> sep (last p)"
      "rest = [] \<or> sep (hd rest)" "\<forall>c \<in> set line. \<not> sep c" by blast
    show "line \<in> set (split_at sep s)"
    proof (cases "p = []")
      case True
      have "takeWhile (\<lambda>c. \<not> sep c) (line @ rest) = line"
      proof (cases rest)
        case Nil
        with pr(4) show ?thesis by simp
      next
        case (Cons r rs)
        with pr(3) have "sep r" by simp
        with Cons pr(4) show ?thesis by (simp add: takeWhile_tail)
      qed
      with True pr(1) have "?t = line" by simp
      then show ?thesis unfolding u by simp
    next
      case False
      with pr(2) have l: "last p \<in> set p" "\<not> \<not> sep (last p)" by auto
      then have t: "takeWhile (\<lambda>c. \<not> sep c) (p @ line @ rest) = takeWhile (\<lambda>c. \<not> sep c) p"
        and d: "dropWhile (\<lambda>c. \<not> sep c) (p @ line @ rest)
                 = dropWhile (\<lambda>c. \<not> sep c) p @ line @ rest"
        by simp_all
      from l have "dropWhile (\<lambda>c. \<not> sep c) p \<noteq> []" by auto
      then obtain x p'' where x: "dropWhile (\<lambda>c. \<not> sep c) p = x # p''"
        by (cases "dropWhile (\<lambda>c. \<not> sep c) p") auto
      have p: "p = takeWhile (\<lambda>c. \<not> sep c) p @ x # p''"
        using takeWhile_dropWhile_id [of "\<lambda>c. \<not> sep c" p] x by simp
      have dd: "?d = x # (p'' @ line @ rest)" using d x pr(1) by simp
      have "p'' = [] \<or> sep (last p'')"
      proof (cases "p'' = []")
        case False
        then have "last p = last p''" using arg_cong [OF p, of last] by simp
        with l(2) show ?thesis by simp
      qed simp
      moreover have "length (p'' @ line @ rest) < length s"
        using arg_cong [OF s, of length] dd by simp
      ultimately have "line \<in> set (split_at sep (p'' @ line @ rest))"
        using less pr(3,4) by blast
      then show ?thesis unfolding u using dd by simp
    qed
  qed
qed

lemma trim_decompose:
  "\<exists>u v. s = u @ trim s @ v \<and> (\<forall>c \<in> set u. is_whitespace c) \<and> (\<forall>c \<in> set v. is_whitespace c)"
proof -
  let ?u = "takeWhile is_whitespace s"
  let ?x = "dropWhile is_whitespace s"
  let ?v = "rev (takeWhile is_whitespace (rev ?x))"
  have "?x = rev (dropWhile is_whitespace (rev ?x)) @ ?v"
    by (metis rev_append rev_rev_ident takeWhile_dropWhile_id)
  then have "?x = trim s @ ?v" by (simp only: trim_def)
  then have "s = ?u @ trim s @ ?v" by (metis takeWhile_dropWhile_id)
  moreover have "\<forall>c \<in> set ?u. is_whitespace c" by (auto dest: set_takeWhileD)
  moreover have "\<forall>c \<in> set ?v. is_whitespace c" by (auto dest: set_takeWhileD)
  ultimately show ?thesis by blast
qed

lemma trim_surrounded:
  assumes "\<forall>c \<in> set u. is_whitespace c" "\<forall>c \<in> set v. is_whitespace c"
    and "m \<noteq> []" "\<not> is_whitespace (hd m)" "\<not> is_whitespace (last m)"
  shows "trim (u @ m @ v) = m"
proof -
  from assms(3,4) have 1: "dropWhile is_whitespace (m @ v) = m @ v" by (cases m) auto
  from assms(3,5) have 2: "dropWhile is_whitespace (rev m) = rev m"
    by (cases "rev m") (auto simp: last_rev [symmetric] hd_rev)
  have "dropWhile is_whitespace (u @ m @ v) = m @ v"
    using assms(1) 1 by simp
  moreover have "dropWhile is_whitespace (rev v @ rev m) = dropWhile is_whitespace (rev m)"
    by (rule dropWhile_append2) (use assms(2) in auto)
  ultimately show ?thesis using 2 by (simp add: trim_def)
qed

subsection \<open>Letter case\<close>

lemma of_char_less_256: "(of_char c :: nat) < 256"
proof -
  have "(of_char c :: nat) = of_char (char_of (of_char c :: nat))" by simp
  also have "\<dots> = (of_char c :: nat) mod 256" by (simp only: of_char_of)
  finally have "(of_char c :: nat) = of_char c mod 256" .
  moreover have "(of_char c :: nat) mod 256 < 256" by simp
  ultimately show ?thesis by simp
qed

lemma small_letter_code:
  fixes n :: nat
  assumes "(97 \<le> n \<and> n \<le> 122) \<or> (224 \<le> n \<and> n \<le> 254 \<and> n \<noteq> 247)"
  shows "(65 \<le> n - 32 \<and> n - 32 \<le> 90) \<or> (192 \<le> n - 32 \<and> n - 32 \<le> 222 \<and> n - 32 \<noteq> 215)"
    and "\<not> ((65 \<le> n \<and> n \<le> 90) \<or> (192 \<le> n \<and> n \<le> 222 \<and> n \<noteq> 215))"
    and "n - 32 + 32 = n" and "(n - 32) mod 256 = n - 32"
    and "n \<notin> {9, 10, 11, 12, 13, 32, 160}" and "n - 32 \<notin> {9, 10, 11, 12, 13, 32, 160}"
  using assms by auto

lemma capital_letter_code:
  fixes n :: nat
  assumes "(65 \<le> n \<and> n \<le> 90) \<or> (192 \<le> n \<and> n \<le> 222 \<and> n \<noteq> 215)"
  shows "(97 \<le> n + 32 \<and> n + 32 \<le> 122) \<or> (224 \<le> n + 32 \<and> n + 32 \<le> 254 \<and> n + 32 \<noteq> 247)"
    and "\<not> ((97 \<le> n \<and> n \<le> 122) \<or> (224 \<le> n \<and> n \<le> 254 \<and> n \<noteq> 247))"
    and "(n + 32) mod 256 = n + 32"
    and "n \<notin> {9, 10, 11, 12, 13, 32, 160}"
  using assms by auto

lemma is_small_canonicalize:
  assumes "is_small c"
  shows "is_capital (canonicalize c)" and "\<not> is_capital c"
    and "toLowerCase_char (canonicalize c) = c" and "\<not> is_whitespace c"
    and "\<not> is_whitespace (canonicalize c)"
proof -
  let ?n = "of_char c :: nat"
  from assms have s: "(97 \<le> ?n \<and> ?n \<le> 122) \<or> (224 \<le> ?n \<and> ?n \<le> 254 \<and> ?n \<noteq> 247)"
    by (simp add: is_small_def Let_def)
  from assms have c: "canonicalize c = char_of (?n - 32)" by (simp add: canonicalize_def)
  have n: "(of_char (canonicalize c) :: nat) = ?n - 32"
    unfolding c of_char_of using small_letter_code(4) [OF s] .
  show cap: "is_capital (canonicalize c)"
    unfolding is_capital_def Let_def n using small_letter_code(1) [OF s] .
  show "\<not> is_capital c"
    unfolding is_capital_def Let_def using small_letter_code(2) [OF s] .
  have "toLowerCase_char (canonicalize c) = char_of (?n - 32 + 32)"
    using cap by (simp add: toLowerCase_char_def n)
  then show "toLowerCase_char (canonicalize c) = c"
    by (simp only: small_letter_code(3) [OF s] char_of_char)
  show "\<not> is_whitespace c"
    unfolding is_whitespace_def using small_letter_code(5) [OF s] .
  show "\<not> is_whitespace (canonicalize c)"
    unfolding is_whitespace_def n using small_letter_code(6) [OF s] .
qed

lemma is_capital_not_whitespace:
  assumes "is_capital c"
  shows "\<not> is_whitespace c" and "\<not> is_small c"
proof -
  let ?n = "of_char c :: nat"
  from assms have s: "(65 \<le> ?n \<and> ?n \<le> 90) \<or> (192 \<le> ?n \<and> ?n \<le> 222 \<and> ?n \<noteq> 215)"
    by (simp add: is_capital_def Let_def)
  show "\<not> is_whitespace c"
    unfolding is_whitespace_def using capital_letter_code(4) [OF s] .
  show "\<not> is_small c"
    unfolding is_small_def Let_def using capital_letter_code(2) [OF s] .
qed

lemma is_capital_toLowerCase:
  assumes "is_capital c"
  shows "canonicalize (toLowerCase_char c) = c"
proof -
  let ?n = "of_char c :: nat"
  from assms have s: "(65 \<le> ?n \<and> ?n \<le> 90) \<or> (192 \<le> ?n \<and> ?n \<le> 222 \<and> ?n \<noteq> 215)"
    by (simp add: is_capital_def Let_def)
  from assms have l: "toLowerCase_char c = char_of (?n + 32)" by (simp add: toLowerCase_char_def)
  have n: "(of_char (toLowerCase_char c) :: nat) = ?n + 32"
    unfolding l of_char_of using capital_letter_code(3) [OF s] .
  have "is_small (toLowerCase_char c)"
    unfolding is_small_def Let_def n using capital_letter_code(1) [OF s] .
  then have "canonicalize (toLowerCase_char c) = char_of (?n + 32 - 32)"
    by (simp add: canonicalize_def n)
  then show ?thesis by simp
qed

lemma toLowerCase_canonicalize: "toLowerCase_char (canonicalize x) = toLowerCase_char x"
proof (cases "is_small x")
  case True
  then show ?thesis
    using is_small_canonicalize(2,3) [OF True] by (simp add: toLowerCase_char_def [of x])
next
  case False
  then show ?thesis by (simp add: canonicalize_def)
qed

lemma canonicalize_toLowerCase: "canonicalize (toLowerCase_char x) = canonicalize x"
proof (cases "is_capital x")
  case True
  then show ?thesis
    using is_capital_toLowerCase [OF True] is_capital_not_whitespace(2) [OF True]
    by (simp add: canonicalize_def [of x])
next
  case False
  then show ?thesis by (simp add: toLowerCase_char_def)
qed

lemma canonicalize_eq_iff_toLowerCase:
  "canonicalize x = canonicalize y \<longleftrightarrow> toLowerCase_char x = toLowerCase_char y"
  by (metis toLowerCase_canonicalize canonicalize_toLowerCase)

lemma whitespace_canonicalize:
  "is_whitespace (canonicalize x) = is_whitespace x"
proof (cases "is_small x")
  case True
  then show ?thesis using is_small_canonicalize(4,5) [OF True] by simp
next
  case False
  then show ?thesis by (simp add: canonicalize_def)
qed

lemma whitespace_canonical: "is_whitespace x \<Longrightarrow> canonicalize x = x"
  using is_small_canonicalize(4) [of x] by (auto simp: canonicalize_def)

lemma canonicalize_whitespace:
  "canonicalize x = canonicalize y \<Longrightarrow> is_whitespace x = is_whitespace y"
  by (metis whitespace_canonicalize)

lemma canonicalize_line_terminator:
  assumes "canonicalize x = canonicalize y"
  shows "is_line_terminator x = is_line_terminator y"
proof -
  have w: "is_line_terminator c \<Longrightarrow> is_whitespace c" for c
    by (auto simp: is_line_terminator_def is_whitespace_def)
  show ?thesis
  proof (cases "is_whitespace x")
    case True
    then have "is_whitespace y" using canonicalize_whitespace [OF assms] by simp
    with True assms have "x = y" by (simp add: whitespace_canonical)
    then show ?thesis by simp
  next
    case False
    then have "\<not> is_whitespace y" using canonicalize_whitespace [OF assms] by simp
    with False w show ?thesis by blast
  qed
qed

lemma line_terminator_is_whitespace: "is_line_terminator c \<Longrightarrow> is_whitespace c"
  by (auto simp: is_line_terminator_def is_whitespace_def)

lemma map_canonicalize_iff_toLowerCase:
  "map canonicalize m = map canonicalize a \<longleftrightarrow> toLowerCase m = toLowerCase a"
proof (induction m arbitrary: a)
  case Nil
  then show ?case by (simp add: toLowerCase_def)
next
  case (Cons x m)
  then show ?case
    by (cases a) (auto simp: toLowerCase_def canonicalize_eq_iff_toLowerCase)
qed

lemma map_canonicalize_transfer:
  assumes "map canonicalize m = map canonicalize a"
  shows "m = [] \<longleftrightarrow> a = []"
    and "m \<noteq> [] \<Longrightarrow> is_whitespace (hd m) = is_whitespace (hd a)"
    and "m \<noteq> [] \<Longrightarrow> is_whitespace (last m) = is_whitespace (last a)"
    and "(\<forall>c \<in> set a. \<not> is_line_terminator c) \<Longrightarrow> (\<forall>c \<in> set m. \<not> is_line_terminator c)"
proof -
  from assms show "m = [] \<longleftrightarrow> a = []" by auto
  from assms have len: "length m = length a" by (rule map_eq_imp_length_eq)
  from assms have nth: "canonicalize (m ! i) = canonicalize (a ! i)" if "i < length m" for i
    using that len by (metis nth_map)
  show "is_whitespace (hd m) = is_whitespace (hd a)" if "m \<noteq> []"
  proof -
    from that len have "a \<noteq> []" by auto
    with that nth [of 0] have "canonicalize (hd m) = canonicalize (hd a)"
      by (simp add: hd_conv_nth)
    then show ?thesis by (rule canonicalize_whitespace)
  qed
  show "is_whitespace (last m) = is_whitespace (last a)" if "m \<noteq> []"
  proof -
    from that len have "a \<noteq> []" by auto
    with that nth [of "length m - 1"] len have "canonicalize (last m) = canonicalize (last a)"
      by (simp add: last_conv_nth)
    then show ?thesis by (rule canonicalize_whitespace)
  qed
  show "\<forall>c \<in> set m. \<not> is_line_terminator c" if a: "\<forall>c \<in> set a. \<not> is_line_terminator c"
  proof
    fix c assume "c \<in> set m"
    then obtain i where i: "i < length m" "m ! i = c" by (auto simp: in_set_conv_nth)
    then have "canonicalize c = canonicalize (a ! i)" using nth by auto
    then have "is_line_terminator c = is_line_terminator (a ! i)"
      by (rule canonicalize_line_terminator)
    moreover have "a ! i \<in> set a" using i len by simp
    ultimately show "\<not> is_line_terminator c" using a by blast
  qed
qed

lemma split_before_last:
  "\<exists>a b. xs = a @ b \<and> (a = [] \<or> P (last a)) \<and> (\<forall>c \<in> set b. \<not> P c)"
proof (induction xs rule: rev_induct)
  case Nil
  then show ?case by simp
next
  case (snoc x xs)
  then obtain a b where ab: "xs = a @ b" "a = [] \<or> P (last a)" "\<forall>c \<in> set b. \<not> P c"
    by blast
  show ?case
  proof (cases "P x")
    case True
    then have "xs @ [x] = (xs @ [x]) @ [] \<and> P (last (xs @ [x])) \<and> (\<forall>c \<in> set []. \<not> P c)"
      by simp
    then show ?thesis by blast
  next
    case False
    with ab have "xs @ [x] = a @ (b @ [x]) \<and> (a = [] \<or> P (last a))
       \<and> (\<forall>c \<in> set (b @ [x]). \<not> P c)" by simp
    then show ?thesis by blast
  qed
qed

lemma split_after_first:
  "\<exists>b a. xs = b @ a \<and> (a = [] \<or> P (hd a)) \<and> (\<forall>c \<in> set b. \<not> P c)"
proof -
  let ?b = "takeWhile (\<lambda>c. \<not> P c) xs"
  let ?a = "dropWhile (\<lambda>c. \<not> P c) xs"
  have "xs = ?b @ ?a" by simp
  moreover have "?a = [] \<or> P (hd ?a)" using hd_dropWhile [of "\<lambda>c. \<not> P c" xs] by blast
  moreover have "\<forall>c \<in> set ?b. \<not> P c" by (auto dest: set_takeWhileD)
  ultimately show ?thesis by blast
qed

subsection \<open>A match is a line that holds the tag alone\<close>

lemma areaRegex_test_decompose:
  "areaRegex_test tag body
     \<longleftrightarrow> (\<exists>p w m v rest.
            body = p @ w @ m @ v @ rest
            \<and> (p = [] \<or> is_line_terminator (last p))
            \<and> (\<forall>c \<in> set w. is_whitespace c)
            \<and> map canonicalize m = map canonicalize tag
            \<and> (\<forall>c \<in> set v. is_whitespace c)
            \<and> (rest = [] \<or> is_line_terminator (hd rest)))"
proof
  assume "areaRegex_test tag body"
  then obtain p r where pr: "body = p @ r"
    "matches_from (areaRegex tag) (if p = [] then None else Some (last p)) r"
    unfolding areaRegex_test_def test_from_iff by blast
  from pr(2) have p: "p = [] \<or> is_line_terminator (last p)"
    and "\<exists>w r'. r = w @ r' \<and> (\<forall>c \<in> set w. is_whitespace c) \<and> tag_then_tail tag r'"
    unfolding matches_areaRegex by (auto simp: at_line_start_def split: if_splits)
  then obtain w r' where w: "r = w @ r'" "\<forall>c \<in> set w. is_whitespace c" "tag_then_tail tag r'"
    by blast
  from w(3) obtain m r'' where m: "r' = m @ r''" "map canonicalize m = map canonicalize tag"
    "line_tail r''" unfolding tag_then_tail_def by blast
  from m(3) obtain v rest where v: "r'' = v @ rest" "\<forall>c \<in> set v. is_whitespace c"
    "at_line_end rest" unfolding line_tail_def by blast
  from v(3) have "rest = [] \<or> is_line_terminator (hd rest)"
    by (cases rest) (simp_all add: at_line_end_def)
  moreover have "body = p @ w @ m @ v @ rest" using pr(1) w(1) m(1) v(1) by simp
  ultimately show "\<exists>p w m v rest.
            body = p @ w @ m @ v @ rest
            \<and> (p = [] \<or> is_line_terminator (last p))
            \<and> (\<forall>c \<in> set w. is_whitespace c)
            \<and> map canonicalize m = map canonicalize tag
            \<and> (\<forall>c \<in> set v. is_whitespace c)
            \<and> (rest = [] \<or> is_line_terminator (hd rest))"
    using p w(2) m(2) v(2) by blast
next
  assume "\<exists>p w m v rest.
            body = p @ w @ m @ v @ rest
            \<and> (p = [] \<or> is_line_terminator (last p))
            \<and> (\<forall>c \<in> set w. is_whitespace c)
            \<and> map canonicalize m = map canonicalize tag
            \<and> (\<forall>c \<in> set v. is_whitespace c)
            \<and> (rest = [] \<or> is_line_terminator (hd rest))"
  then obtain p w m v rest where d: "body = p @ w @ m @ v @ rest"
    "p = [] \<or> is_line_terminator (last p)" "\<forall>c \<in> set w. is_whitespace c"
    "map canonicalize m = map canonicalize tag" "\<forall>c \<in> set v. is_whitespace c"
    "rest = [] \<or> is_line_terminator (hd rest)" by blast
  from d(6) have "at_line_end rest" by (cases rest) (simp_all add: at_line_end_def)
  with d(5) have "line_tail (v @ rest)" unfolding line_tail_def by blast
  with d(4) have "tag_then_tail tag (m @ v @ rest)" unfolding tag_then_tail_def by blast
  with d(3) have "\<exists>w' r. w @ m @ v @ rest = w' @ r \<and> (\<forall>c \<in> set w'. is_whitespace c)
            \<and> tag_then_tail tag r" by blast
  moreover from d(2) have "at_line_start (if p = [] then None else Some (last p))"
    by (auto simp: at_line_start_def)
  ultimately have "matches_from (areaRegex tag) (if p = [] then None else Some (last p))
                     (w @ m @ v @ rest)"
    unfolding matches_areaRegex by blast
  with d(1) show "areaRegex_test tag body"
    unfolding areaRegex_test_def test_from_iff by blast
qed

lemma areaRegex_test_iff_line:
  assumes "standalone_tag tag"
  shows "areaRegex_test tag body \<longleftrightarrow> has_line_solely tag body"
proof
  assume "areaRegex_test tag body"
  then obtain p w m v rest where d: "body = p @ w @ m @ v @ rest"
    "p = [] \<or> is_line_terminator (last p)" "\<forall>c \<in> set w. is_whitespace c"
    "map canonicalize m = map canonicalize tag" "\<forall>c \<in> set v. is_whitespace c"
    "rest = [] \<or> is_line_terminator (hd rest)"
    unfolding areaRegex_test_decompose by blast
  from assms have tag: "tag \<noteq> []" "\<not> is_whitespace (hd tag)" "\<not> is_whitespace (last tag)"
    "\<forall>c \<in> set tag. \<not> is_line_terminator c" by (simp_all add: standalone_tag_def)
  from map_canonicalize_transfer [OF d(4)] tag
  have m: "m \<noteq> []" "\<not> is_whitespace (hd m)" "\<not> is_whitespace (last m)"
    "\<forall>c \<in> set m. \<not> is_line_terminator c" by simp_all
  obtain w1 u where w: "w = w1 @ u" "w1 = [] \<or> is_line_terminator (last w1)"
    "\<forall>c \<in> set u. \<not> is_line_terminator c"
    using split_before_last [of w is_line_terminator] by blast
  obtain u' v2 where v: "v = u' @ v2" "v2 = [] \<or> is_line_terminator (hd v2)"
    "\<forall>c \<in> set u'. \<not> is_line_terminator c"
    using split_after_first [of v is_line_terminator] by blast
  let ?line = "u @ m @ u'"
  have "body = (p @ w1) @ ?line @ (v2 @ rest)" using d(1) w(1) v(1) by simp
  moreover have "p @ w1 = [] \<or> is_line_terminator (last (p @ w1))"
    using d(2) w(2) by (cases "w1 = []") auto
  moreover have "v2 @ rest = [] \<or> is_line_terminator (hd (v2 @ rest))"
    using d(6) v(2) by (cases v2) auto
  moreover have "\<forall>c \<in> set ?line. \<not> is_line_terminator c" using w(3) m(4) v(3) by auto
  ultimately have line: "?line \<in> set (lines_of body)"
    unfolding lines_of_def in_split_at_iff by blast
  have "\<forall>c \<in> set u. is_whitespace c" "\<forall>c \<in> set u'. is_whitespace c"
    using d(3,5) w(1) v(1) by auto
  then have "trim ?line = m" using m(1,2,3) by (rule trim_surrounded)
  moreover have "toLowerCase m = toLowerCase tag"
    using d(4) by (simp add: map_canonicalize_iff_toLowerCase)
  ultimately have "solely tag ?line" by (simp add: solely_def)
  with line show "has_line_solely tag body"
    unfolding has_line_solely_def list_ex_iff by blast
next
  assume "has_line_solely tag body"
  then obtain line where line: "line \<in> set (lines_of body)" "solely tag line"
    unfolding has_line_solely_def list_ex_iff by blast
  from line(1) obtain p rest where pr: "body = p @ line @ rest"
    "p = [] \<or> is_line_terminator (last p)" "rest = [] \<or> is_line_terminator (hd rest)"
    unfolding lines_of_def in_split_at_iff by blast
  obtain u v where uv: "line = u @ trim line @ v" "\<forall>c \<in> set u. is_whitespace c"
    "\<forall>c \<in> set v. is_whitespace c"
    using trim_decompose [of line] by blast
  from line(2) have "map canonicalize (trim line) = map canonicalize tag"
    by (simp add: solely_def map_canonicalize_iff_toLowerCase)
  moreover have "body = p @ u @ trim line @ v @ rest"
    using pr(1) uv(1) by (metis append.assoc)
  ultimately show "areaRegex_test tag body"
    unfolding areaRegex_test_decompose using pr(2,3) uv(2,3) by blast
qed

lemma platformAreas_standalone: "\<forall>tag \<in> set platformAreas. standalone_tag tag"
  by (simp add: platformAreas_def standalone_tag_def is_whitespace_def is_line_terminator_def)

text \<open>In a body without a carriage return the lines are those of \<open>split("\n")\<close>.\<close>

lemma split_at_cong:
  "(\<forall>c \<in> set s. P c = Q c) \<Longrightarrow> split_at P s = split_at Q s"
  by (induction s) simp_all

lemma lines_of_without_CR:
  assumes "CHR 0x0D \<notin> set body"
  shows "lines_of body = split_newline body"
proof -
  have "is_line_terminator c = (c = CHR 0x0A)" if "c \<in> set body" for c
  proof -
    from that assms have "c \<noteq> CHR 0x0D" by auto
    then have "(of_char c :: nat) \<noteq> of_char (CHR 0x0D)" by (simp only: of_char_eq_iff not_False_eq_True)
    moreover have "(c = CHR 0x0A) = ((of_char c :: nat) = of_char (CHR 0x0A))"
      by (simp only: of_char_eq_iff)
    ultimately show ?thesis by (simp add: is_line_terminator_def)
  qed
  then show ?thesis unfolding lines_of_def split_newline_def by (intro split_at_cong) blast
qed

text \<open>
  C4. For every body, the components are the tags of the vocabulary REELS, ALPHA,
  TRINITY, AI HUB, in that order, for which some line of the body consists solely of the
  tag: the line, trimmed, equals the tag when both are put in lower case. The lines are
  those that the line terminators (LF and CR) delimit, as for the flag \<open>m\<close>. So a tag
  is a component if and only if it stands alone on a line; a tag inside a sentence gives
  no match, since its line trimmed is longer than the tag; and the list is empty when no
  tag stands alone.
\<close>

theorem components_are_standalone_tags:
  "components (snd (mapGitHubIssueToJiraFields githubIssue loaded))
     = filter (\<lambda>tag. has_line_solely tag (or_empty (issue_body githubIssue))) platformAreas"
proof -
  have "components (snd (mapGitHubIssueToJiraFields githubIssue loaded))
     = filter (\<lambda>tag. areaRegex_test tag (or_empty (issue_body githubIssue))) platformAreas"
    by (simp add: mapGitHubIssueToJiraFields_def Let_def push_areas_filter split: prod.splits)
  also have "\<dots> = filter (\<lambda>tag. has_line_solely tag (or_empty (issue_body githubIssue)))
                      platformAreas"
    by (rule filter_cong [OF refl])
       (use platformAreas_standalone in \<open>auto simp: areaRegex_test_iff_line\<close>)
  finally show ?thesis .
qed

theorem components_are_standalone_tags_witness:
  "components (snd (mapGitHubIssueToJiraFields
      \<lparr>issue_title = Some ''Production system down - REELS not loading'',
       issue_body = Some ''Area?\<newline>reels \<newline>\<newline>  AI Hub\<newline>no REELS here.'',
       issue_labels = None\<rparr> (Inl ''no file''))) = [''REELS'', ''AI HUB'']
   \<and> components (snd (mapGitHubIssueToJiraFields
      \<lparr>issue_title = None, issue_body = Some ''my REELS thing'', issue_labels = None\<rparr>
      (Inl ''no file''))) = []"
proof -
  have 1: "filter (\<lambda>tag. has_line_solely tag
              ''Area?\<newline>reels \<newline>\<newline>  AI Hub\<newline>no REELS here.'')
            platformAreas = [''REELS'', ''AI HUB'']"
    by code_simp
  have 2: "filter (\<lambda>tag. has_line_solely tag ''my REELS thing'') platformAreas = []"
    by code_simp
  show ?thesis
    using components_are_standalone_tags
      [of "\<lparr>issue_title = Some ''Production system down - REELS not loading'',
       issue_body = Some ''Area?\<newline>reels \<newline>\<newline>  AI Hub\<newline>no REELS here.'',
       issue_labels = None\<rparr>" "Inl ''no file''"]
      components_are_standalone_tags
      [of "\<lparr>issue_title = None, issue_body = Some ''my REELS thing'', issue_labels = None\<rparr>"
          "Inl ''no file''"]
    by (simp add: 1 2 or_empty_def)
qed

end
